theory Spec2Isabelle
  imports Complex_Main "HOL-Library.Word"
begin

section \<open>Playback transport (SimpleAudioPlayer.tsx)\<close>

text \<open>
  The component keeps its transport in React state (\<open>isPlaying\<close>, \<open>currentTime\<close>,
  \<open>duration\<close>, \<open>volume\<close>, \<open>isMuted\<close>, \<open>isDragging\<close>) next to the host's audio element
  held in \<open>audioRef\<close>. Of the element only the fields the handler writes are kept.
  A ref that is still \<open>null\<close> is \<open>None\<close>. Times are seconds, as reals.
\<close>

record AudioElement =
  el_currentTime :: real
  el_paused :: bool

record PlayerState =
  isPlaying :: bool
  currentTime :: real
  duration :: real
  volume :: real
  isMuted :: bool
  isDragging :: bool
  audioRef :: "AudioElement option"

text \<open>
  \<open>handleRestart\<close>: the click handler of the Restart button. It writes no state that an
  effect of the component depends on, so the handler is all that a click does.
\<close>

definition handleRestart :: "PlayerState \<Rightarrow> PlayerState" where
  "handleRestart s =
     (case audioRef s of
        None \<Rightarrow> s
      | Some a \<Rightarrow> s\<lparr>audioRef := Some (a\<lparr>el_currentTime := 0\<rparr>), currentTime := 0\<rparr>)"

text \<open>The state right after mounting: the \<open>useState\<close> initial values, the element created.\<close>

definition initialState :: PlayerState where
  "initialState =
     \<lparr>isPlaying = False, currentTime = 0, duration = 0, volume = 0.8, isMuted = False,
      isDragging = False, audioRef = Some \<lparr>el_currentTime = 0, el_paused = True\<rparr>\<rparr>"

section \<open>Playback transport (AudioPlayer)\<close>

text \<open>
  The player that \<open>Index.tsx\<close> mounts. Its React state is \<open>isPlaying\<close>, \<open>isMuted\<close>,
  \<open>duration\<close>, \<open>sliderValue\<close>, \<open>currentTime\<close> and \<open>userIsDragging\<close>; its refs hold the
  audio context, the gain node, the running source node, the context time at which
  playback started and the buffer offset it started from. Of a context, gain node or
  source node only its presence matters here (\<open>False\<close> is \<open>null\<close>). The buffer played is
  \<open>processedAudioBuffer || audioBuffer\<close>, of which the transport uses the duration only;
  no buffer is \<open>None\<close>. The refs \<open>isPlayingRef\<close>, \<open>userIsDraggingRef\<close> and
  \<open>durationRef\<close> are copies of the state that effects refresh after every render and are
  read as the state. The fields carry a suffix where the other player has the name.
\<close>

record AudioPlayerState =
  isPlaying_ap :: bool
  isMuted_ap :: bool
  duration_ap :: real
  sliderValue :: real
  currentTime_ap :: real
  userIsDragging :: bool
  audioContextRef :: bool
  gainNodeRef :: bool
  sourceNodeRef :: bool
  playbackStartTimeRef :: real
  playbackOffsetRef :: real
  buffer_ap :: "real option"

text \<open>\<open>stopPlayback\<close>: stops and disconnects the source, if there is one, and drops it.\<close>

definition stopPlayback :: "AudioPlayerState \<Rightarrow> AudioPlayerState" where
  "stopPlayback s = (if sourceNodeRef s then s\<lparr>sourceNodeRef := False\<rparr> else s)"




text \<open>
  \<open>play\<close>, taken as one step. \<open>ok\<close> is false when the \<open>await\<close> of
  \<open>audioContext.resume()\<close> rejects; the \<open>catch\<close> then sets \<open>isPlaying\<close> to false.
\<close>

definition play :: "real \<Rightarrow> real \<Rightarrow> bool \<Rightarrow> AudioPlayerState \<Rightarrow> AudioPlayerState" where
  "play startPosition now ok s =
     (if \<not> audioContextRef s \<or> \<not> gainNodeRef s then s
      else
        (case buffer_ap s of
           None \<Rightarrow> s
         | Some bufferDuration \<Rightarrow>
             if ok
             then (stopPlayback s)\<lparr>sourceNodeRef := True,
                                    playbackStartTimeRef := now,
                                    playbackOffsetRef := max 0 (min startPosition bufferDuration),
                                    isPlaying_ap := True\<rparr>
             else s\<lparr>isPlaying_ap := False\<rparr>))"










section \<open>Waveshaper curve\<close>

text \<open>
  \<open>makeDistortionCurve\<close> is declared twice, inside \<open>applyRadioVoice\<close> (default amount 50)
  and inside \<open>applyVinylEffect\<close> (default amount 5), with the same body. An argument left
  out is \<open>None\<close>. Arithmetic is over the reals.
\<close>

definition n_samples :: nat where
  "n_samples = 44100"

definition deg :: real where
  "deg = pi / 180"

definition curvePoint :: "real \<Rightarrow> nat \<Rightarrow> real" where
  "curvePoint k i =
     (let x = (real i * 2) / real n_samples - 1
      in (3 + k) * x * 20 * deg / (pi + k * \<bar>x\<bar>))"

definition makeDistortionCurve_radio :: "real option \<Rightarrow> real list" where
  "makeDistortionCurve_radio amount =
     (let k = (case amount of Some a \<Rightarrow> a | None \<Rightarrow> 50)
      in map (curvePoint k) [0..<n_samples])"

definition makeDistortionCurve_vinyl :: "real option \<Rightarrow> real list" where
  "makeDistortionCurve_vinyl amount =
     (let k = (case amount of Some a \<Rightarrow> a | None \<Rightarrow> 5)
      in map (curvePoint k) [0..<n_samples])"

text \<open>The transfer curve as the specification writes it.\<close>

definition transfer :: "real \<Rightarrow> real \<Rightarrow> real" where
  "transfer k x = (3 + k) * x * 20 * (pi / 180) / (pi + k * \<bar>x\<bar>)"

section \<open>Numbers of the host\<close>

text \<open>
  A JavaScript number is an IEEE 754 double; the samples of an \<open>AudioBuffer\<close> and the value
  of an \<open>AudioParam\<close> are IEEE 754 singles. Both formats round a real to the nearest
  value with \<open>p\<close> significant bits, a tie going to the even significand; below the
  exponent \<open>emin\<close> the spacing stays that of \<open>emin\<close> (subnormal values). The sign is
  rounded symmetrically. \<open>roundBinary\<close> does not bound the exponent from above; where the
  host tests for overflow the test is written out (\<open>audioParam\<close>).
\<close>

definition roundHalfEven :: "real \<Rightarrow> int" where
  "roundHalfEven q =
     (let f = \<lfloor>q\<rfloor>; d = q - of_int f
      in if d < 1 / 2 then f else if 1 / 2 < d then f + 1 else if even f then f else f + 1)"

definition exponentOf :: "int \<Rightarrow> real \<Rightarrow> int" where
  "exponentOf emin x = max emin \<lfloor>log 2 \<bar>x\<bar>\<rfloor>"

definition pow2 :: "int \<Rightarrow> real" where
  "pow2 e = 2 powr of_int e"

definition roundBinary :: "nat \<Rightarrow> int \<Rightarrow> real \<Rightarrow> real" where
  "roundBinary p emin x =
     (let ulp = pow2 (exponentOf emin x - (int p - 1))
      in sgn x * (of_int (roundHalfEven (\<bar>x\<bar> / ulp)) * ulp))"

text \<open>\<open>Math.fround\<close>: the nearest single.\<close>

definition fround :: "real \<Rightarrow> real" where
  "fround = roundBinary 24 (- 126)"

text \<open>The nearest double: the value of a decimal literal and of an arithmetic result.\<close>

definition double :: "real \<Rightarrow> real" where
  "double = roundBinary 53 (- 1022)"

text \<open>
  The values a variable of type \<open>number\<close> can hold, and the operations
  \<open>previewManualProcessing\<close> applies to its parameters: \<open>x !== 0\<close>, \<open>x > 0\<close>,
  \<open>3 + Math.abs(x)\<close> and \<open>1 + x / 10\<close>.
\<close>

datatype number = Finite real | PositiveInfinity | NegativeInfinity | NaN

fun notZero :: "number \<Rightarrow> bool" where
  "notZero (Finite v) = (v \<noteq> 0)"
| "notZero n = True"

fun greaterThanZero :: "number \<Rightarrow> bool" where
  "greaterThanZero (Finite v) = (0 < v)"
| "greaterThanZero PositiveInfinity = True"
| "greaterThanZero n = False"

fun threePlusAbs :: "number \<Rightarrow> number" where
  "threePlusAbs (Finite v) = Finite (double (3 + \<bar>v\<bar>))"
| "threePlusAbs NaN = NaN"
| "threePlusAbs n = PositiveInfinity"

fun onePlusTenth :: "number \<Rightarrow> number" where
  "onePlusTenth (Finite v) = Finite (double (1 + double (v / 10)))"
| "onePlusTenth n = n"

text \<open>
  The errors the code under study can end with: the \<open>Error\<close> that \<open>processAudio\<close> throws
  itself, and the host's \<open>TypeError\<close>.
\<close>

datatype error = Error string | TypeError

text \<open>
  Assigning to \<open>AudioParam.value\<close>. The attribute is a \<open>float\<close>: the host converts the
  number to the nearest single and throws a \<open>TypeError\<close> when the number is not finite or
  the nearest single would be \<open>2^128\<close> in magnitude. The value kept here is the number
  assigned; the host stores and uses its single.
\<close>

fun audioParam :: "number \<Rightarrow> error + real" where
  "audioParam (Finite v) = (if \<bar>fround v\<bar> < 2 ^ 128 then Inr v else Inl TypeError)"
| "audioParam n = Inl TypeError"

fun bindE :: "'e + 'a \<Rightarrow> ('a \<Rightarrow> 'e + 'b) \<Rightarrow> 'e + 'b" where
  "bindE (Inl e) f = Inl e"
| "bindE (Inr x) f = f x"

section \<open>Sample buffers and the host's audio graph (audioProcessing)\<close>

text \<open>
  An \<open>AudioBuffer\<close> of the host: its sample rate, its length in frames and one array of
  samples per channel. Samples are the finite values of the arrays, as reals. The host
  creates buffers with at least one channel, a positive sample rate and every channel as
  long as the buffer.
\<close>

record AudioBuffer =
  sampleRate :: nat
  length_frames :: nat
  channelData :: "real list list"

definition numberOfChannels :: "AudioBuffer \<Rightarrow> nat" where
  "numberOfChannels b = length (channelData b)"

definition getChannelData :: "AudioBuffer \<Rightarrow> nat \<Rightarrow> real list" where
  "getChannelData b channel = channelData b ! channel"

definition wellFormed :: "AudioBuffer \<Rightarrow> bool" where
  "wellFormed b \<longleftrightarrow>
     0 < numberOfChannels b \<and> 0 < sampleRate b \<and>
     list_all (\<lambda>data. length data = length_frames b) (channelData b)"

text \<open>
  The nodes the code creates on an \<open>OfflineAudioContext\<close>, with the numbers it assigns to
  their parameters. A parameter the code leaves alone stays at the host's default and is
  \<open>None\<close> here. A decimal literal of the source that is not a double itself is written
  \<open>double\<close> of the decimal.
\<close>

datatype BiquadFilterType = Lowshelf | Highshelf | Peaking | Lowpass | Highpass | Bandpass

datatype OverSampleType = Oversample_none | Oversample_2x | Oversample_4x

datatype AudioNode =
    BiquadFilter (ftype: BiquadFilterType) (frequency: real) (Q: "real option")
      (fgain: "real option")
  | DynamicsCompressor (threshold: real) (knee: real) (ratio: real) (attack: real)
      (release: real)
  | StereoPanner (pan: real)
  | GainNode (gain: real)
  | WaveShaper (curve: "real list") (oversample: OverSampleType)

text \<open>
  Rendering is the host's. A gain node holds its gain as a single and multiplies every
  sample of every channel by it, each product rounded to a single; what the filter,
  compressor, panner and waveshaper nodes compute is not in the repository and is a
  parameter \<open>host\<close>. The code always connects its nodes in one line from the source to the
  destination, so a graph is the list of its nodes in connection order and rendering runs
  the buffer through them; with no node the source is connected to the destination and the
  rendered buffer is the source's.
\<close>

type_synonym host = "AudioNode \<Rightarrow> AudioBuffer \<Rightarrow> AudioBuffer"

definition applyGain :: "real \<Rightarrow> AudioBuffer \<Rightarrow> AudioBuffer" where
  "applyGain g b = b\<lparr>channelData := map (map (\<lambda>x. fround (x * g))) (channelData b)\<rparr>"

fun processNode :: "host \<Rightarrow> AudioNode \<Rightarrow> AudioBuffer \<Rightarrow> AudioBuffer" where
  "processNode h (GainNode g) b = applyGain (fround g) b"
| "processNode h node b = h node b"

definition startRendering :: "host \<Rightarrow> AudioNode list \<Rightarrow> AudioBuffer \<Rightarrow> AudioBuffer" where
  "startRendering h nodes b = fold (processNode h) nodes b"

subsection \<open>The ten presets\<close>

text \<open>
  Every preset assigns literals to its parameters, all finite and far inside the range of
  a single, so no assignment throws; only \<open>applyNormalize\<close> assigns a computed number.
\<close>

definition applyBassBoost :: "host \<Rightarrow> AudioBuffer \<Rightarrow> error + AudioBuffer" where
  "applyBassBoost h audioBuffer =
     Inr (startRendering h
       [BiquadFilter Lowshelf 100 None (Some 10),
        BiquadFilter Peaking 1000 (Some 1) (Some 2)] audioBuffer)"

definition applyStudioSound :: "host \<Rightarrow> AudioBuffer \<Rightarrow> error + AudioBuffer" where
  "applyStudioSound h audioBuffer =
     Inr (startRendering h
       [BiquadFilter Lowshelf 200 None (Some 3),
        BiquadFilter Highshelf 6000 None (Some 3),
        DynamicsCompressor (- 24) 30 3 (double 0.003) 0.25,
        StereoPanner 0] audioBuffer)"

definition applyPodcastVoice :: "host \<Rightarrow> AudioBuffer \<Rightarrow> error + AudioBuffer" where
  "applyPodcastVoice h audioBuffer =
     Inr (startRendering h
       [BiquadFilter Highpass 120 None None,
        BiquadFilter Peaking 3000 (Some 1) (Some 5),
        DynamicsCompressor (- 20) 6 4 (double 0.002) (double 0.1),
        GainNode 1.5] audioBuffer)"

definition applyAsmr :: "host \<Rightarrow> AudioBuffer \<Rightarrow> error + AudioBuffer" where
  "applyAsmr h audioBuffer =
     Inr (startRendering h
       [BiquadFilter Highpass 80 None None,
        BiquadFilter Peaking 8000 (Some 1) (Some 6),
        StereoPanner 0,
        GainNode (double 1.2)] audioBuffer)"

definition applyNoiseReduction :: "host \<Rightarrow> AudioBuffer \<Rightarrow> error + AudioBuffer" where
  "applyNoiseReduction h audioBuffer =
     Inr (startRendering h
       [BiquadFilter Highpass 150 (Some (double 0.7)) None,
        BiquadFilter Lowpass 7500 None None,
        BiquadFilter Bandpass 1000 (Some 0.5) None,
        DynamicsCompressor (- 30) 10 3 (double 0.02) (double 0.3)] audioBuffer)"

definition applyRadioVoice :: "host \<Rightarrow> AudioBuffer \<Rightarrow> error + AudioBuffer" where
  "applyRadioVoice h audioBuffer =
     Inr (startRendering h
       [BiquadFilter Bandpass 1800 (Some (double 0.8)) None,
        WaveShaper (makeDistortionCurve_radio (Some 20)) Oversample_4x,
        DynamicsCompressor (- 18) 5 12 (double 0.002) 0.25,
        GainNode (double 1.2)] audioBuffer)"

definition applyVinylEffect :: "host \<Rightarrow> AudioBuffer \<Rightarrow> error + AudioBuffer" where
  "applyVinylEffect h audioBuffer =
     Inr (startRendering h
       [BiquadFilter Highpass 40 None None,
        BiquadFilter Lowpass 5000 None None,
        BiquadFilter Peaking 3000 (Some 1.5) (Some (- 2)),
        WaveShaper (makeDistortionCurve_vinyl (Some 2)) Oversample_4x] audioBuffer)"

definition applyPhoneCall :: "host \<Rightarrow> AudioBuffer \<Rightarrow> error + AudioBuffer" where
  "applyPhoneCall h audioBuffer =
     Inr (startRendering h
       [BiquadFilter Bandpass 1700 (Some 0.5) None,
        BiquadFilter Lowpass 3400 None None,
        BiquadFilter Highpass 300 None None,
        DynamicsCompressor (- 15) 5 5 (double 0.05) (double 0.1),
        GainNode (double 1.3)] audioBuffer)"

text \<open>
  \<open>applyNormalize\<close>: the two nested scans that look for the peak amplitude, over the
  channels and over the samples of each channel, then one gain node. The quotient is a
  double; assigning it to the gain is the one assignment of a preset that can throw.
\<close>

definition peakOfChannel :: "real list \<Rightarrow> real \<Rightarrow> real" where
  "peakOfChannel data peak0 =
     fold (\<lambda>i peak. let amplitude = \<bar>data ! i\<bar> in if amplitude > peak then amplitude else peak)
       [0..<length data] peak0"

definition findPeak :: "AudioBuffer \<Rightarrow> real" where
  "findPeak audioBuffer =
     fold (\<lambda>channel peak. peakOfChannel (getChannelData audioBuffer channel) peak)
       [0..<numberOfChannels audioBuffer] 0"

definition targetPeak :: real where
  "targetPeak = double 0.7079"

definition gainFactor :: "AudioBuffer \<Rightarrow> real" where
  "gainFactor audioBuffer =
     (let peak = findPeak audioBuffer in if peak > 0 then double (targetPeak / peak) else 1)"

definition applyNormalize :: "host \<Rightarrow> AudioBuffer \<Rightarrow> error + AudioBuffer" where
  "applyNormalize h audioBuffer =
     bindE (audioParam (Finite (gainFactor audioBuffer)))
       (\<lambda>g. Inr (startRendering h [GainNode g] audioBuffer))"

definition applyCompression :: "host \<Rightarrow> AudioBuffer \<Rightarrow> error + AudioBuffer" where
  "applyCompression h audioBuffer =
     Inr (startRendering h
       [DynamicsCompressor (- 24) 12 4 (double 0.005) (double 0.1),
        GainNode 1.5] audioBuffer)"

text \<open>
  The table \<open>presets\<close>: its own ten keys. The members the object literal inherits from
  \<open>Object.prototype\<close>, which \<open>preset in presets\<close> finds as well, follow with the entry
  point (\<open>objectPrototype\<close>, \<open>inPresets\<close>).
\<close>

definition presets :: "(string \<times> (host \<Rightarrow> AudioBuffer \<Rightarrow> error + AudioBuffer)) list" where
  "presets =
     [(''bass-boost'', applyBassBoost),
      (''studio-sound'', applyStudioSound),
      (''podcast-voice'', applyPodcastVoice),
      (''asmr'', applyAsmr),
      (''noise-reduction'', applyNoiseReduction),
      (''radio-voice'', applyRadioVoice),
      (''vinyl-effect'', applyVinylEffect),
      (''phone-call'', applyPhoneCall),
      (''normalize'', applyNormalize),
      (''compression'', applyCompression)]"

subsection \<open>Manual parameters\<close>

text \<open>\<open>ManualProcessingParams\<close>: every field is optional; one left out is \<open>None\<close>.\<close>

record ManualProcessingParams =
  bass :: "number option"
  treble :: "number option"
  compression :: "number option"
  normalize :: "number option"
  lowpass :: "number option"
  highpass :: "number option"

text \<open>
  \<open>previewManualProcessing\<close> runs six \<open>if\<close> blocks in this order: bass, treble, high
  pass, low pass, compression, gain. A block whose test passes creates a node, assigns its
  parameters and connects it behind \<open>lastNode\<close>; the assignment of the parameter's number
  can throw, which ends the function. Each block is given the nodes connected so far.
\<close>

definition bassBlock :: "ManualProcessingParams \<Rightarrow> AudioNode list \<Rightarrow> error + AudioNode list" where
  "bassBlock params nodes =
     (case bass params of
        None \<Rightarrow> Inr nodes
      | Some v \<Rightarrow>
          if notZero v
          then bindE (audioParam v) (\<lambda>g. Inr (nodes @ [BiquadFilter Lowshelf 100 None (Some g)]))
          else Inr nodes)"

definition trebleBlock :: "ManualProcessingParams \<Rightarrow> AudioNode list \<Rightarrow> error + AudioNode list" where
  "trebleBlock params nodes =
     (case treble params of
        None \<Rightarrow> Inr nodes
      | Some v \<Rightarrow>
          if notZero v
          then bindE (audioParam v) (\<lambda>g. Inr (nodes @ [BiquadFilter Highshelf 3000 None (Some g)]))
          else Inr nodes)"

definition highpassBlock :: "ManualProcessingParams \<Rightarrow> AudioNode list \<Rightarrow> error + AudioNode list" where
  "highpassBlock params nodes =
     (case highpass params of
        None \<Rightarrow> Inr nodes
      | Some v \<Rightarrow>
          if greaterThanZero v
          then bindE (audioParam v) (\<lambda>f. Inr (nodes @ [BiquadFilter Highpass f None None]))
          else Inr nodes)"

definition lowpassBlock :: "ManualProcessingParams \<Rightarrow> AudioNode list \<Rightarrow> error + AudioNode list" where
  "lowpassBlock params nodes =
     (case lowpass params of
        None \<Rightarrow> Inr nodes
      | Some v \<Rightarrow>
          if greaterThanZero v
          then bindE (audioParam v) (\<lambda>f. Inr (nodes @ [BiquadFilter Lowpass f None None]))
          else Inr nodes)"

definition compressionBlock ::
    "ManualProcessingParams \<Rightarrow> AudioNode list \<Rightarrow> error + AudioNode list" where
  "compressionBlock params nodes =
     (case compression params of
        None \<Rightarrow> Inr nodes
      | Some v \<Rightarrow>
          if notZero v
          then bindE (audioParam (threePlusAbs v))
                 (\<lambda>r. Inr (nodes @ [DynamicsCompressor (- 24) 30 r (double 0.003) 0.25]))
          else Inr nodes)"

definition normalizeBlock ::
    "ManualProcessingParams \<Rightarrow> AudioNode list \<Rightarrow> error + AudioNode list" where
  "normalizeBlock params nodes =
     (case normalize params of
        None \<Rightarrow> Inr nodes
      | Some v \<Rightarrow>
          if greaterThanZero v
          then bindE (audioParam (onePlusTenth v)) (\<lambda>g. Inr (nodes @ [GainNode g]))
          else Inr nodes)"

definition manualNodes :: "ManualProcessingParams \<Rightarrow> error + AudioNode list" where
  "manualNodes params =
     bindE (bassBlock params [])
       (\<lambda>n1. bindE (trebleBlock params n1)
         (\<lambda>n2. bindE (highpassBlock params n2)
           (\<lambda>n3. bindE (lowpassBlock params n3)
             (\<lambda>n4. bindE (compressionBlock params n4)
               (\<lambda>n5. normalizeBlock params n5)))))"

definition previewManualProcessing ::
    "host \<Rightarrow> AudioBuffer \<Rightarrow> ManualProcessingParams \<Rightarrow> error + AudioBuffer" where
  "previewManualProcessing h audioBuffer params =
     bindE (manualNodes params) (\<lambda>nodes. Inr (startRendering h nodes audioBuffer))"

subsection \<open>The entry point\<close>

text \<open>
  \<open>processAudio\<close> tests \<open>preset && preset in presets\<close>. The operator \<open>in\<close> also finds
  the properties the object literal inherits from \<open>Object.prototype\<close>, and the call
  \<open>presets[preset](audioBuffer)\<close> then runs the inherited member with the table as
  \<open>this\<close> and the buffer as its argument, so the promise can resolve with something that is
  not a buffer: \<open>constructor\<close> returns its argument; \<open>toString\<close> and \<open>toLocaleString\<close>
  return the text \<open>[object Object]\<close>; \<open>valueOf\<close> returns the table; \<open>hasOwnProperty\<close>,
  \<open>isPrototypeOf\<close> and \<open>propertyIsEnumerable\<close> return \<open>false\<close>;
  \<open>__lookupGetter__\<close> and \<open>__lookupSetter__\<close> return \<open>undefined\<close>;
  \<open>__defineGetter__\<close> and \<open>__defineSetter__\<close> throw a \<open>TypeError\<close> for want of a
  function argument, and \<open>__proto__\<close> is not a function, so calling it throws a
  \<open>TypeError\<close>.
\<close>

datatype resolved = Buffer AudioBuffer | Text string | Boolean bool | Undefined | PresetsTable

definition objectPrototype :: "(string \<times> (AudioBuffer \<Rightarrow> error + resolved)) list" where
  "objectPrototype =
     [(''constructor'', \<lambda>audioBuffer. Inr (Buffer audioBuffer)),
      (''__defineGetter__'', \<lambda>audioBuffer. Inl TypeError),
      (''__defineSetter__'', \<lambda>audioBuffer. Inl TypeError),
      (''hasOwnProperty'', \<lambda>audioBuffer. Inr (Boolean False)),
      (''__lookupGetter__'', \<lambda>audioBuffer. Inr Undefined),
      (''__lookupSetter__'', \<lambda>audioBuffer. Inr Undefined),
      (''isPrototypeOf'', \<lambda>audioBuffer. Inr (Boolean False)),
      (''propertyIsEnumerable'', \<lambda>audioBuffer. Inr (Boolean False)),
      (''toString'', \<lambda>audioBuffer. Inr (Text ''[object Object]'')),
      (''valueOf'', \<lambda>audioBuffer. Inr PresetsTable),
      (''__proto__'', \<lambda>audioBuffer. Inl TypeError),
      (''toLocaleString'', \<lambda>audioBuffer. Inr (Text ''[object Object]''))]"

text \<open>
  \<open>preset in presets\<close>, and the call of the member found: an own key first, an inherited
  one otherwise. Calling a name that is not in the table would call \<open>undefined\<close>, a
  \<open>TypeError\<close>; \<open>processAudio\<close> calls only after the test.
\<close>

definition inPresets :: "string \<Rightarrow> bool" where
  "inPresets name \<longleftrightarrow> map_of presets name \<noteq> None \<or> map_of objectPrototype name \<noteq> None"

definition callPreset :: "host \<Rightarrow> string \<Rightarrow> AudioBuffer \<Rightarrow> error + resolved" where
  "callPreset h name audioBuffer =
     (case map_of presets name of
        Some apply \<Rightarrow> map_sum id Buffer (apply h audioBuffer)
      | None \<Rightarrow>
          (case map_of objectPrototype name of
             Some member \<Rightarrow> member audioBuffer
           | None \<Rightarrow> Inl TypeError))"

text \<open>
  \<open>processAudio\<close>. An argument left out is \<open>None\<close>; an empty preset string is falsy as
  well. The \<open>catch\<close> logs and throws the same error again.
\<close>

definition processAudio ::
    "host \<Rightarrow> AudioBuffer \<Rightarrow> string option \<Rightarrow> ManualProcessingParams option
      \<Rightarrow> error + resolved" where
  "processAudio h audioBuffer preset manualParams =
     (let otherwise =
            (case manualParams of
               Some params \<Rightarrow> map_sum id Buffer (previewManualProcessing h audioBuffer params)
             | None \<Rightarrow> Inl (Error ''Invalid preset or parameters''))
      in case preset of
           None \<Rightarrow> otherwise
         | Some name \<Rightarrow>
             if name \<noteq> [] \<and> inPresets name then callPreset h name audioBuffer
             else otherwise)"

section \<open>PCM container (audioBufferToWav, writeString)\<close>

subsection \<open>The host's DataView\<close>

text \<open>
  A \<open>DataView\<close> over a fresh \<open>ArrayBuffer\<close> is its list of bytes. A setter writes
  its bytes in place and throws a \<open>RangeError\<close> when they do not fit in the buffer. Every
  multi-byte setter is called with \<open>littleEndian = true\<close>: the low byte comes first.
  An integer argument is reduced modulo the field's width, which the conversion to a word
  does.
\<close>

type_synonym byte = "8 word"

datatype view_error = RangeError

fun putBytes :: "byte list \<Rightarrow> nat \<Rightarrow> byte list \<Rightarrow> byte list" where
  "putBytes view byteOffset [] = view"
| "putBytes view byteOffset (x # xs) = putBytes (view[byteOffset := x]) (Suc byteOffset) xs"

definition setBytes :: "byte list \<Rightarrow> nat \<Rightarrow> byte list \<Rightarrow> view_error + byte list" where
  "setBytes view byteOffset bs =
     (if byteOffset + length bs \<le> length view then Inr (putBytes view byteOffset bs)
      else Inl RangeError)"

definition le16 :: "16 word \<Rightarrow> byte list" where
  "le16 w = [ucast w, ucast (drop_bit 8 w)]"

definition le32 :: "32 word \<Rightarrow> byte list" where
  "le32 w = [ucast w, ucast (drop_bit 8 w), ucast (drop_bit 16 w), ucast (drop_bit 24 w)]"

definition setUint8 :: "byte list \<Rightarrow> nat \<Rightarrow> nat \<Rightarrow> view_error + byte list" where
  "setUint8 view byteOffset v = setBytes view byteOffset [of_nat v]"

definition setUint16 :: "byte list \<Rightarrow> nat \<Rightarrow> nat \<Rightarrow> view_error + byte list" where
  "setUint16 view byteOffset v = setBytes view byteOffset (le16 (of_nat v))"

definition setUint32 :: "byte list \<Rightarrow> nat \<Rightarrow> nat \<Rightarrow> view_error + byte list" where
  "setUint32 view byteOffset v = setBytes view byteOffset (le32 (of_nat v))"

text \<open>
  \<open>setInt16\<close> is handed a number that need not be whole. The host's conversion drops
  the fraction (rounding towards zero) and reduces modulo \<open>2^16\<close>; \<open>NaN\<close>, which is
  \<open>None\<close> here, becomes 0.
\<close>

definition toInt16 :: "real \<Rightarrow> 16 word" where
  "toInt16 x = word_of_int (if x < 0 then \<lceil>x\<rceil> else \<lfloor>x\<rfloor>)"

definition setInt16 :: "byte list \<Rightarrow> nat \<Rightarrow> real option \<Rightarrow> view_error + byte list" where
  "setInt16 view byteOffset v =
     setBytes view byteOffset (le16 (case v of None \<Rightarrow> 0 | Some x \<Rightarrow> toInt16 x))"

text \<open>The readers of a \<open>DataView\<close>, little-endian, for offsets inside the buffer.\<close>

definition getUint16 :: "byte list \<Rightarrow> nat \<Rightarrow> 16 word" where
  "getUint16 view byteOffset =
     word_cat (view ! (byteOffset + 1)) (view ! byteOffset)"

definition getUint32 :: "byte list \<Rightarrow> nat \<Rightarrow> 32 word" where
  "getUint32 view byteOffset =
     word_cat (getUint16 view (byteOffset + 2)) (getUint16 view byteOffset)"

subsection \<open>The encoder\<close>

text \<open>
  A \<open>for\<close> loop over an index range whose body may throw: the body runs on each index
  in turn, and the first error ends the loop.
\<close>

fun forEach :: "('i \<Rightarrow> 's \<Rightarrow> 'e + 's) \<Rightarrow> 'i list \<Rightarrow> 's \<Rightarrow> 'e + 's" where
  "forEach body [] s = Inr s"
| "forEach body (i # is) s =
     (case body i s of Inl e \<Rightarrow> Inl e | Inr s' \<Rightarrow> forEach body is s')"

definition writeString :: "byte list \<Rightarrow> nat \<Rightarrow> string \<Rightarrow> view_error + byte list" where
  "writeString view offset string =
     forEach (\<lambda>i v. setUint8 v (offset + i) (of_char (string ! i))) [0..<length string] view"

text \<open>
  \<open>audioBuffer.getChannelData(ch)[i]\<close>: reading a typed array past its end gives
  \<open>undefined\<close>, which \<open>Math.min\<close> turns into \<open>NaN\<close>.
\<close>

definition sampleAt :: "AudioBuffer \<Rightarrow> nat \<Rightarrow> nat \<Rightarrow> real option" where
  "sampleAt audioBuffer ch i =
     (let data = getChannelData audioBuffer ch
      in if i < length data then Some (data ! i) else None)"

text \<open>The body of the inner loop; the state is the view and the running \<open>pos\<close>.\<close>

definition writeSample ::
    "AudioBuffer \<Rightarrow> nat \<Rightarrow> nat \<Rightarrow> byte list \<times> nat \<Rightarrow> view_error + byte list \<times> nat" where
  "writeSample audioBuffer i ch st =
     (case st of (view, pos) \<Rightarrow>
        (let sample = map_option (\<lambda>x. max (- 1) (min 1 x)) (sampleAt audioBuffer ch i);
             int16 = map_option (\<lambda>s. if s < 0 then s * 0x8000 else s * 0x7FFF) sample
         in case setInt16 view pos int16 of
              Inl e \<Rightarrow> Inl e
            | Inr view' \<Rightarrow> Inr (view', pos + 2)))"

text \<open>
  \<open>audioBufferToWav\<close>, the same in \<open>audioProcessing\<close>, \<open>Index.tsx\<close> and
  \<open>videoExport.ts\<close>: the thirteen header writes in the order of the source, then the two
  nested iterations over frames and channels.
\<close>

definition audioBufferToWav :: "AudioBuffer \<Rightarrow> view_error + byte list" where
  "audioBufferToWav audioBuffer =
     (let numOfChannels = numberOfChannels audioBuffer;
          dataLength = length_frames audioBuffer * numOfChannels * 2;
          view = replicate (44 + dataLength) 0;
          rate = sampleRate audioBuffer;
          channels = numberOfChannels audioBuffer
      in case forEach (\<lambda>write v. write v)
                [\<lambda>v. writeString v 0 ''RIFF'',
                 \<lambda>v. setUint32 v 4 (36 + dataLength),
                 \<lambda>v. writeString v 8 ''WAVE'',
                 \<lambda>v. writeString v 12 ''fmt '',
                 \<lambda>v. setUint32 v 16 16,
                 \<lambda>v. setUint16 v 20 1,
                 \<lambda>v. setUint16 v 22 channels,
                 \<lambda>v. setUint32 v 24 rate,
                 \<lambda>v. setUint32 v 28 (rate * 4),
                 \<lambda>v. setUint16 v 32 (channels * 2),
                 \<lambda>v. setUint16 v 34 16,
                 \<lambda>v. writeString v 36 ''data'',
                 \<lambda>v. setUint32 v 40 dataLength] view of
           Inl e \<Rightarrow> Inl e
         | Inr view' \<Rightarrow>
             (case forEach (\<lambda>i. forEach (\<lambda>ch. writeSample audioBuffer i ch) [0..<numOfChannels])
                     [0..<length_frames audioBuffer] (view', 44) of
                Inl e \<Rightarrow> Inl e
              | Inr (buffer, pos) \<Rightarrow> Inr buffer))"

subsection \<open>The layout of the encoder's output\<close>

text \<open>
  The bytes the writes above leave behind, field by field; the lemma
  \<open>audioBufferToWav_eq\<close> below proves that the encoder returns exactly these.
\<close>

definition charBytes :: "string \<Rightarrow> byte list" where
  "charBytes s = map (\<lambda>c. of_nat (of_char c)) s"

definition headerBytes :: "AudioBuffer \<Rightarrow> byte list" where
  "headerBytes b =
     charBytes ''RIFF'' @ le32 (of_nat (36 + length_frames b * numberOfChannels b * 2)) @
     charBytes ''WAVE'' @ charBytes ''fmt '' @ le32 (of_nat 16) @ le16 (of_nat 1) @
     le16 (of_nat (numberOfChannels b)) @ le32 (of_nat (sampleRate b)) @
     le32 (of_nat (sampleRate b * 4)) @ le16 (of_nat (numberOfChannels b * 2)) @
     le16 (of_nat 16) @ charBytes ''data'' @
     le32 (of_nat (length_frames b * numberOfChannels b * 2))"

definition sampleWord :: "AudioBuffer \<Rightarrow> nat \<Rightarrow> nat \<Rightarrow> 16 word" where
  "sampleWord b i ch =
     (case sampleAt b ch i of
        None \<Rightarrow> 0
      | Some x \<Rightarrow> toInt16 (let s = max (- 1) (min 1 x) in if s < 0 then s * 32768 else s * 32767))"

definition frameBytes :: "AudioBuffer \<Rightarrow> nat \<Rightarrow> byte list" where
  "frameBytes b i = concat (map (\<lambda>ch. le16 (sampleWord b i ch)) [0..<numberOfChannels b])"

definition dataBytes :: "AudioBuffer \<Rightarrow> byte list" where
  "dataBytes b = concat (map (frameBytes b) [0..<length_frames b])"

subsection \<open>The decoder\<close>

text \<open>
  Modelled from the spec: the decoder \<open>decode(bytes) -> SampleBuffer\<close>. The repository
  has no decoder of its own (it hands files to the host's \<open>decodeAudioData\<close>). Following
  the specification, \<open>decode\<close> reads the fixed 44-byte header followed by interleaved
  16-bit signed little-endian samples and fails with \<open>MalformedContainer\<close> when the header
  tags or the declared chunk sizes are inconsistent with the byte length; the format tag is
  PCM and the bit depth is fixed at 16. Byte rate and block align are not checked. A 16-bit
  value goes back to a float by the encoder's two scale factors: a negative value is
  divided by 0x8000, any other by 0x7FFF.
\<close>

datatype decode_error = MalformedContainer

definition int16ToFloat :: "16 word \<Rightarrow> real" where
  "int16ToFloat w =
     (if sint w < 0 then real_of_int (sint w) / 32768 else real_of_int (sint w) / 32767)"

definition decode :: "byte list \<Rightarrow> decode_error + AudioBuffer" where
  "decode bytes =
     (if length bytes < 44 then Inl MalformedContainer
      else if take 4 bytes \<noteq> charBytes ''RIFF'' \<or> take 4 (drop 8 bytes) \<noteq> charBytes ''WAVE'' \<or>
              take 4 (drop 12 bytes) \<noteq> charBytes ''fmt '' \<or>
              take 4 (drop 36 bytes) \<noteq> charBytes ''data''
      then Inl MalformedContainer
      else if unat (getUint32 bytes 4) + 8 \<noteq> length bytes \<or> unat (getUint32 bytes 16) \<noteq> 16 \<or>
              unat (getUint32 bytes 40) + 44 \<noteq> length bytes
      then Inl MalformedContainer
      else if getUint16 bytes 20 \<noteq> 1 \<or> getUint16 bytes 34 \<noteq> 16
      then Inl MalformedContainer
      else
        (let channels = unat (getUint16 bytes 22);
             dataLength = unat (getUint32 bytes 40)
         in if channels = 0 \<or> dataLength mod (2 * channels) \<noteq> 0 then Inl MalformedContainer
            else
              (let frames = dataLength div (2 * channels)
               in Inr \<lparr>sampleRate = unat (getUint32 bytes 24),
                       length_frames = frames,
                       channelData =
                         map (\<lambda>ch. map (\<lambda>i. int16ToFloat
                                               (getUint16 bytes (44 + 2 * (i * channels + ch))))
                                    [0..<frames])
                           [0..<channels]\<rparr>)))"

text \<open>Encoding a buffer and decoding the bytes; \<open>None\<close> when either step fails.\<close>

definition roundTrip :: "AudioBuffer \<Rightarrow> AudioBuffer option" where
  "roundTrip b =
     (case audioBufferToWav b of
        Inl e \<Rightarrow> None
      | Inr bytes \<Rightarrow> (case decode bytes of Inl e \<Rightarrow> None | Inr b' \<Rightarrow> Some b'))"

section \<open>Concrete inputs\<close>

text \<open>
  A host whose nodes leave a buffer as it is, and the small buffers, parameter sets and
  player state at which the theorems below are instantiated.
\<close>

definition bypassHost :: host where
  "bypassHost node b = b"

definition halfBuffer :: AudioBuffer where
  "halfBuffer = \<lparr>sampleRate = 44100, length_frames = 2, channelData = [[1/4, -1/2], [0, 1/8]]\<rparr>"

definition silentBuffer :: AudioBuffer where
  "silentBuffer = \<lparr>sampleRate = 44100, length_frames = 2, channelData = [[0, 0], [0, 0]]\<rparr>"

definition neutralParams :: ManualProcessingParams where
  "neutralParams =
     \<lparr>bass = Some (Finite 0), treble = Some (Finite 0), compression = Some (Finite 0),
      normalize = Some (Finite 0), lowpass = Some (Finite 0), highpass = Some (Finite 0)\<rparr>"

definition noParams :: ManualProcessingParams where
  "noParams =
     \<lparr>bass = None, treble = None, compression = None, normalize = None, lowpass = None,
      highpass = None\<rparr>"


text \<open>
  Two samples inside \<open>[-1, 1]\<close>, both exact in single precision: \<open>-(2^17 - 1) / 2^32\<close>
  and \<open>(2^16 + 1) / 2^31\<close>.
\<close>

definition quantBuffer :: AudioBuffer where
  "quantBuffer =
     \<lparr>sampleRate = 44100, length_frames = 2,
      channelData = [[- 131071 / 4294967296, 65537 / 2147483648]]\<rparr>"

definition quantDecoded :: AudioBuffer where
  "quantDecoded = \<lparr>sampleRate = 44100, length_frames = 2, channelData = [[0, 0]]\<rparr>"

definition monoBuffer :: AudioBuffer where
  "monoBuffer = \<lparr>sampleRate = 44100, length_frames = 2, channelData = [[1/2, - 3/2]]\<rparr>"

text \<open>A playing state of the first player, three seconds into a ten second buffer.\<close>

definition playingState :: PlayerState where
  "playingState =
     \<lparr>isPlaying = True, currentTime = 3, duration = 10, volume = 0.8, isMuted = False,
      isDragging = False, audioRef = Some \<lparr>el_currentTime = 3, el_paused = False\<rparr>\<rparr>"

section \<open>Helper lemmas\<close>

subsection \<open>Rounding\<close>

lemma pow2_pos [simp]: "0 < pow2 e"
  by (simp add: pow2_def)

lemma pow2_nonneg [simp]: "0 \<le> pow2 e"
  by (simp add: pow2_def)


lemma pow2_nat: "pow2 (int n) = 2 ^ n"
  by (simp add: pow2_def powr_realpow)


lemma roundHalfEven_bounds: "\<lfloor>q\<rfloor> \<le> roundHalfEven q" "roundHalfEven q \<le> \<lfloor>q\<rfloor> + 1"
  by (simp_all add: roundHalfEven_def Let_def)

lemma roundHalfEven_of_int [simp]: "roundHalfEven (of_int n) = n"
  by (simp add: roundHalfEven_def Let_def)

lemma roundHalfEven_mono: "q1 \<le> q2 \<Longrightarrow> roundHalfEven q1 \<le> roundHalfEven q2"
proof -
  assume le: "q1 \<le> q2"
  have fl: "\<lfloor>q1\<rfloor> \<le> \<lfloor>q2\<rfloor>" using le by (rule floor_mono)
  show ?thesis
  proof (cases "\<lfloor>q1\<rfloor> = \<lfloor>q2\<rfloor>")
    case True
    then have "q1 - of_int \<lfloor>q1\<rfloor> \<le> q2 - of_int \<lfloor>q2\<rfloor>" using le by simp
    then show ?thesis using True by (auto simp: roundHalfEven_def Let_def)
  next
    case False
    then have "\<lfloor>q1\<rfloor> + 1 \<le> \<lfloor>q2\<rfloor>" using fl by simp
    then show ?thesis
      using roundHalfEven_bounds(2)[of q1] roundHalfEven_bounds(1)[of q2] by linarith
  qed
qed

lemma roundHalfEven_nonneg: "0 \<le> q \<Longrightarrow> 0 \<le> roundHalfEven q"
  using roundHalfEven_mono[of 0 q] roundHalfEven_of_int[of 0] by simp

lemma roundBinary_zero [simp]: "roundBinary p emin 0 = 0"
  by (simp add: roundBinary_def)


lemma roundBinary_nonneg: "0 \<le> x \<Longrightarrow> 0 \<le> roundBinary p emin x"
proof -
  assume x: "0 \<le> x"
  let ?u = "pow2 (exponentOf emin x - (int p - 1))"
  have "0 \<le> \<bar>x\<bar> / ?u" by (simp add: less_imp_le)
  then have "0 \<le> roundHalfEven (\<bar>x\<bar> / ?u)" by (rule roundHalfEven_nonneg)
  then have "0 \<le> real_of_int (roundHalfEven (\<bar>x\<bar> / ?u)) * ?u"
    by (intro mult_nonneg_nonneg) (simp_all add: less_imp_le)
  then show ?thesis using x by (simp add: roundBinary_def Let_def sgn_if)
qed





lemma roundBinary_pos_eq:
  "0 < x \<Longrightarrow> roundBinary p emin x =
     of_int (roundHalfEven (x / pow2 (exponentOf emin x - (int p - 1)))) *
       pow2 (exponentOf emin x - (int p - 1))"
  by (simp add: roundBinary_def Let_def)



lemma roundBinary_eval:
  assumes "0 < x" and "pow2 e \<le> x" and "x < pow2 (e + 1)" and "emin \<le> e"
  shows "roundBinary p emin x =
           of_int (roundHalfEven (x / pow2 (e - (int p - 1)))) * pow2 (e - (int p - 1))"
proof -
  have "\<lfloor>log 2 x\<rfloor> = e"
    using assms(1,2,3) by (simp add: floor_log_eq_powr_iff pow2_def)
  then have "exponentOf emin x = e" using assms(1,4) by (simp add: exponentOf_def)
  then show ?thesis using assms(1) by (simp add: roundBinary_pos_eq)
qed

lemma pow2_neg: "pow2 (- int n) = 1 / 2 ^ n"
  by (simp add: pow2_def powr_minus powr_realpow inverse_eq_divide)

lemma pow2_numeral [simp]:
  "pow2 (numeral k) = 2 ^ numeral k"
  "pow2 (- numeral k) = 1 / 2 ^ numeral k"
  "pow2 0 = 1" "pow2 1 = 2" "pow2 (- 1) = 1 / 2"
  using pow2_nat[of "numeral k"] pow2_neg[of "numeral k"] pow2_nat[of 0] pow2_nat[of 1] pow2_neg[of 1]
  by simp_all


lemma double_7079: "double (7079 / 10000) = 6376196352431148 / 2 ^ 53"
proof -
  have "roundBinary 53 (- 1022) (7079 / 10000)
      = of_int (roundHalfEven (7079 / 10000 / pow2 (- 1 - (int 53 - 1)))) * pow2 (- 1 - (int 53 - 1))"
    by (rule roundBinary_eval) simp_all
  moreover have "roundHalfEven (7079 / 10000 * 2 ^ 53) = 6376196352431148"
    by (simp add: roundHalfEven_def Let_def)
  ultimately show ?thesis by (simp add: double_def)
qed

subsection \<open>The peak scan\<close>

lemma fold_index: "fold (\<lambda>i. f (xs ! i)) [0..<length xs] a = fold f xs a"
proof (induction xs arbitrary: a rule: rev_induct)
  case Nil show ?case by simp
next
  case (snoc x xs)
  have "fold (\<lambda>i. f ((xs @ [x]) ! i)) [0..<length xs] a = fold (\<lambda>i. f (xs ! i)) [0..<length xs] a"
    by (rule fold_cong) (auto simp: nth_append)
  then show ?case using snoc by simp
qed

lemma peakOfChannel_fold: "peakOfChannel data p = fold (\<lambda>x q. max q \<bar>x\<bar>) data p"
proof -
  have "peakOfChannel data p = fold (\<lambda>i. (\<lambda>x q. max q \<bar>x\<bar>) (data ! i)) [0..<length data] p"
    unfolding peakOfChannel_def by (rule fold_cong) (auto simp: max_def Let_def)
  also have "\<dots> = fold (\<lambda>x q. max q \<bar>x\<bar>) data p"
    by (rule fold_index)
  finally show ?thesis .
qed

lemma findPeak_fold: "findPeak b = fold (\<lambda>data p. fold (\<lambda>x q. max q \<bar>x\<bar>) data p) (channelData b) 0"
proof -
  have "findPeak b = fold (\<lambda>i. (\<lambda>data p. fold (\<lambda>x q. max q \<bar>x\<bar>) data p) (channelData b ! i)) [0..<length (channelData b)] 0"
    unfolding findPeak_def numberOfChannels_def getChannelData_def peakOfChannel_fold ..
  also have "\<dots> = fold (\<lambda>data p. fold (\<lambda>x q. max q \<bar>x\<bar>) data p) (channelData b) 0"
    by (rule fold_index)
  finally show ?thesis .
qed

lemma chan_fold_ge: "(p::real) \<le> fold (\<lambda>x q. max q \<bar>x\<bar>) data p"
proof (induction data arbitrary: p)
  case Nil show ?case by simp
next
  case (Cons x xs)
  have "p \<le> max p \<bar>x\<bar>" by simp
  also have "\<dots> \<le> fold (\<lambda>x q. max q \<bar>x\<bar>) xs (max p \<bar>x\<bar>)" by (rule Cons.IH)
  finally show ?case by simp
qed

lemma chan_fold_upper: "x \<in> set data \<Longrightarrow> \<bar>x::real\<bar> \<le> fold (\<lambda>x q. max q \<bar>x\<bar>) data p"
proof (induction data arbitrary: p)
  case Nil then show ?case by simp
next
  case (Cons y ys)
  show ?case
  proof (cases "x = y")
    case True
    have "\<bar>x\<bar> \<le> max p \<bar>y\<bar>" using True by simp
    also have "\<dots> \<le> fold (\<lambda>x q. max q \<bar>x\<bar>) ys (max p \<bar>y\<bar>)" by (rule chan_fold_ge)
    finally show ?thesis by simp
  next
    case False
    then have "x \<in> set ys" using Cons.prems by simp
    then show ?thesis using Cons.IH by simp
  qed
qed

lemma chan_fold_attained:
  "fold (\<lambda>x q. max q \<bar>x\<bar>) data p = (p::real) \<or> (\<exists>x\<in>set data. fold (\<lambda>x q. max q \<bar>x\<bar>) data p = \<bar>x\<bar>)"
proof (induction data arbitrary: p)
  case Nil show ?case by simp
next
  case (Cons y ys)
  from Cons.IH[of "max p \<bar>y\<bar>"] show ?case
    by (auto simp: max_def split: if_splits)
qed

lemma buf_fold_ge: "(p::real) \<le> fold (\<lambda>data p. fold (\<lambda>x q. max q \<bar>x\<bar>) data p) chans p"
proof (induction chans arbitrary: p)
  case Nil show ?case by simp
next
  case (Cons c cs)
  have "p \<le> fold (\<lambda>x q. max q \<bar>x\<bar>) c p" by (rule chan_fold_ge)
  also have "\<dots> \<le> fold (\<lambda>data p. fold (\<lambda>x q. max q \<bar>x\<bar>) data p) cs (fold (\<lambda>x q. max q \<bar>x\<bar>) c p)"
    by (rule Cons.IH)
  finally show ?case by simp
qed

lemma buf_fold_upper:
  "c \<in> set chans \<Longrightarrow> x \<in> set c \<Longrightarrow> \<bar>x::real\<bar> \<le> fold (\<lambda>data p. fold (\<lambda>x q. max q \<bar>x\<bar>) data p) chans p"
proof (induction chans arbitrary: p)
  case Nil then show ?case by simp
next
  case (Cons d ds)
  show ?case
  proof (cases "c = d")
    case True
    have "\<bar>x\<bar> \<le> fold (\<lambda>x q. max q \<bar>x\<bar>) d p"
      using True Cons.prems(2) by (simp add: chan_fold_upper)
    also have "\<dots> \<le> fold (\<lambda>data p. fold (\<lambda>x q. max q \<bar>x\<bar>) data p) ds (fold (\<lambda>x q. max q \<bar>x\<bar>) d p)"
      by (rule buf_fold_ge)
    finally show ?thesis by simp
  next
    case False
    then have "c \<in> set ds" using Cons.prems by simp
    then show ?thesis using Cons.IH Cons.prems(2) by simp
  qed
qed

lemma buf_fold_attained:
  "fold (\<lambda>data p. fold (\<lambda>x q. max q \<bar>x\<bar>) data p) chans p = (p::real) \<or>
   (\<exists>c\<in>set chans. \<exists>x\<in>set c. fold (\<lambda>data p. fold (\<lambda>x q. max q \<bar>x\<bar>) data p) chans p = \<bar>x\<bar>)"
proof (induction chans arbitrary: p)
  case Nil show ?case by simp
next
  case (Cons d ds)
  from Cons.IH[of "fold (\<lambda>x q. max q \<bar>x\<bar>) d p"] chan_fold_attained[of d p]
  show ?case by auto
qed


lemma findPeak_upper: "c \<in> set (channelData b) \<Longrightarrow> x \<in> set c \<Longrightarrow> \<bar>x\<bar> \<le> findPeak b"
  by (simp add: findPeak_fold buf_fold_upper)

lemma findPeak_attained:
  "findPeak b = 0 \<or> (\<exists>c\<in>set (channelData b). \<exists>x\<in>set c. findPeak b = \<bar>x\<bar>)"
  unfolding findPeak_fold by (rule buf_fold_attained)

lemma findPeak_zero_iff: "findPeak b = 0 \<longleftrightarrow> (\<forall>c\<in>set (channelData b). \<forall>x\<in>set c. x = 0)"
proof
  assume z: "findPeak b = 0"
  show "\<forall>c\<in>set (channelData b). \<forall>x\<in>set c. x = 0"
  proof (intro ballI)
    fix c x assume "c \<in> set (channelData b)" "x \<in> set c"
    then have "\<bar>x\<bar> \<le> findPeak b" by (rule findPeak_upper)
    then show "x = 0" using z by simp
  qed
next
  assume "\<forall>c\<in>set (channelData b). \<forall>x\<in>set c. x = 0"
  then show "findPeak b = 0" using findPeak_attained[of b] by auto
qed


subsection \<open>The encoder writes the layout\<close>

lemma putBytes_frontier:
  "length bs \<le> k \<Longrightarrow>
     putBytes (pre @ replicate k 0) (length pre) bs = pre @ bs @ replicate (k - length bs) 0"
proof (induction bs arbitrary: pre k)
  case Nil show ?case by simp
next
  case (Cons x xs)
  then obtain k' where k: "k = Suc k'" by (cases k) auto
  have "(pre @ replicate k 0)[length pre := x] = (pre @ [x]) @ replicate k' 0"
    by (simp add: k)
  moreover have "putBytes ((pre @ [x]) @ replicate k' 0) (length (pre @ [x])) xs
        = (pre @ [x]) @ xs @ replicate (k' - length xs) 0"
    using Cons.prems k by (intro Cons.IH) simp
  ultimately show ?case by (simp add: k)
qed

lemma setBytes_frontier:
  "length bs \<le> k \<Longrightarrow> off = length pre \<Longrightarrow>
     setBytes (pre @ replicate k 0) off bs = Inr (pre @ bs @ replicate (k - length bs) 0)"
  by (simp add: setBytes_def putBytes_frontier)

lemma forEach_snoc:
  "forEach body (is @ [i]) s = (case forEach body is s of Inl e \<Rightarrow> Inl e | Inr s' \<Rightarrow> body i s')"
  by (induction "is" arbitrary: s) (auto split: sum.splits)

lemma forEach_cong:
  "(\<And>i s. i \<in> set js \<Longrightarrow> f i s = g i s) \<Longrightarrow> forEach f js s = forEach g js s"
  by (induction js arbitrary: s) (auto split: sum.splits)

lemma writeString_frontier:
  "length str \<le> k \<Longrightarrow> off = length pre \<Longrightarrow>
     writeString (pre @ replicate k 0) off str
       = Inr (pre @ charBytes str @ replicate (k - length str) 0)"
proof (induction str arbitrary: k rule: rev_induct)
  case Nil show ?case by (simp add: writeString_def charBytes_def)
next
  case (snoc c cs)
  let ?v0 = "pre @ replicate k 0"
  have "forEach (\<lambda>i v. setUint8 v (off + i) (of_char ((cs @ [c]) ! i))) [0..<length cs] ?v0
      = forEach (\<lambda>i v. setUint8 v (off + i) (of_char (cs ! i))) [0..<length cs] ?v0"
    by (rule forEach_cong) (simp add: nth_append)
  also have "\<dots> = writeString ?v0 off cs"
    by (simp add: writeString_def)
  also have "\<dots> = Inr (pre @ charBytes cs @ replicate (k - length cs) 0)"
    using snoc.prems by (intro snoc.IH) simp_all
  finally have first: "forEach (\<lambda>i v. setUint8 v (off + i) (of_char ((cs @ [c]) ! i)))
      [0..<length cs] ?v0 = Inr (pre @ charBytes cs @ replicate (k - length cs) 0)" .
  have "setBytes ((pre @ charBytes cs) @ replicate (k - length cs) 0) (off + length cs)
          [of_nat (of_char c)]
      = Inr ((pre @ charBytes cs) @ [of_nat (of_char c)] @
             replicate (k - length cs - length [of_nat (of_char c) :: byte]) 0)"
    using snoc.prems by (intro setBytes_frontier) (simp_all add: charBytes_def)
  then have last: "setUint8 (pre @ charBytes cs @ replicate (k - length cs) 0) (off + length cs)
          (of_char c) = Inr (pre @ charBytes (cs @ [c]) @ replicate (k - length (cs @ [c])) 0)"
    by (simp add: setUint8_def charBytes_def)
  show ?case
    unfolding writeString_def using last
    by (simp add: forEach_snoc first)
qed

lemma length_le16 [simp]: "length (le16 w) = 2"
  by (simp add: le16_def)

lemma length_le32 [simp]: "length (le32 w) = 4"
  by (simp add: le32_def)

lemma length_charBytes [simp]: "length (charBytes s) = length s"
  by (simp add: charBytes_def)

lemma writeSample_frontier:
  assumes "2 \<le> k"
  shows "writeSample b i ch (pre @ replicate k 0, length pre)
       = Inr ((pre @ le16 (sampleWord b i ch)) @ replicate (k - 2) 0,
              length (pre @ le16 (sampleWord b i ch)))"
proof -
  have sb: "setBytes (pre @ replicate k 0) (length pre) (le16 w)
      = Inr (pre @ le16 w @ replicate (k - 2) 0)" for w
    using setBytes_frontier[of "le16 w" k "length pre" pre] assms by simp
  show ?thesis
    by (cases "sampleAt b ch i")
      (simp_all add: writeSample_def setInt16_def Let_def sampleWord_def sb)
qed

lemma frame_loop:
  "n \<le> numberOfChannels b \<Longrightarrow> 2 * n \<le> k \<Longrightarrow>
     forEach (\<lambda>ch. writeSample b i ch) [0..<n] (pre @ replicate k 0, length pre)
       = Inr ((pre @ concat (map (\<lambda>ch. le16 (sampleWord b i ch)) [0..<n])) @ replicate (k - 2 * n) 0,
              length (pre @ concat (map (\<lambda>ch. le16 (sampleWord b i ch)) [0..<n])))"
proof (induction n)
  case 0 show ?case by simp
next
  case (Suc n)
  let ?pre = "pre @ concat (map (\<lambda>ch. le16 (sampleWord b i ch)) [0..<n])"
  have IH: "forEach (\<lambda>ch. writeSample b i ch) [0..<n] (pre @ replicate k 0, length pre)
       = Inr (?pre @ replicate (k - 2 * n) 0, length ?pre)"
    using Suc.prems by (intro Suc.IH) simp_all
  have st: "writeSample b i n (?pre @ replicate (k - 2 * n) 0, length ?pre)
       = Inr ((?pre @ le16 (sampleWord b i n)) @ replicate (k - 2 * n - 2) 0,
              length (?pre @ le16 (sampleWord b i n)))"
    using Suc.prems by (intro writeSample_frontier) simp
  have "k - 2 * n - 2 = k - 2 * Suc n" by simp
  then show ?case
    using IH st by (simp add: forEach_snoc)
qed

lemma length_frameBytes: "length (frameBytes b i) = 2 * numberOfChannels b"
proof -
  have "\<And>n. length (concat (map (\<lambda>ch. le16 (sampleWord b i ch)) [0..<n])) = 2 * n"
    subgoal for n by (induction n) (simp_all add: le16_def)
    done
  then show ?thesis by (simp add: frameBytes_def)
qed

lemma length_frames_concat:
  "length (concat (map (frameBytes b) [0..<n])) = 2 * numberOfChannels b * n"
  by (induction n) (simp_all add: length_frameBytes)

lemma sample_loop:
  "n \<le> length_frames b \<Longrightarrow> 2 * numberOfChannels b * n \<le> k \<Longrightarrow>
     forEach (\<lambda>i. forEach (\<lambda>ch. writeSample b i ch) [0..<numberOfChannels b]) [0..<n]
         (pre @ replicate k 0, length pre)
       = Inr ((pre @ concat (map (frameBytes b) [0..<n])) @ replicate (k - 2 * numberOfChannels b * n) 0,
              length (pre @ concat (map (frameBytes b) [0..<n])))"
proof (induction n)
  case 0 show ?case by simp
next
  case (Suc n)
  let ?c = "numberOfChannels b"
  let ?pre = "pre @ concat (map (frameBytes b) [0..<n])"
  have IH: "forEach (\<lambda>i. forEach (\<lambda>ch. writeSample b i ch) [0..<?c]) [0..<n]
         (pre @ replicate k 0, length pre) = Inr (?pre @ replicate (k - 2 * ?c * n) 0, length ?pre)"
    using Suc.prems by (intro Suc.IH) simp_all
  have "2 * ?c \<le> k - 2 * ?c * n" using Suc.prems by simp
  then have st: "forEach (\<lambda>ch. writeSample b n ch) [0..<?c] (?pre @ replicate (k - 2 * ?c * n) 0, length ?pre)
       = Inr ((?pre @ frameBytes b n) @ replicate (k - 2 * ?c * n - 2 * ?c) 0,
              length (?pre @ frameBytes b n))"
    unfolding frameBytes_def by (intro frame_loop) simp_all
  have "k - 2 * ?c * n - 2 * ?c = k - 2 * ?c * Suc n" by simp
  then show ?case
    using IH st by (simp add: forEach_snoc)
qed

lemma length_headerBytes: "length (headerBytes b) = 44"
  by (simp add: headerBytes_def)

lemma setBytes_step:
  "length pre = off \<Longrightarrow> length bs + k' = k \<Longrightarrow>
     setBytes (pre @ replicate k 0) off bs = Inr ((pre @ bs) @ replicate k' 0)"
  using setBytes_frontier[of bs k off pre] by auto

lemma writeString_step:
  "length pre = off \<Longrightarrow> length str + k' = k \<Longrightarrow>
     writeString (pre @ replicate k 0) off str = Inr ((pre @ charBytes str) @ replicate k' 0)"
  using writeString_frontier[of str k off pre] by auto

lemma header_writes:
  "forEach (\<lambda>write v. write v)
                [\<lambda>v. writeString v 0 ''RIFF'',
                 \<lambda>v. setUint32 v 4 (36 + len),
                 \<lambda>v. writeString v 8 ''WAVE'',
                 \<lambda>v. writeString v 12 ''fmt '',
                 \<lambda>v. setUint32 v 16 16,
                 \<lambda>v. setUint16 v 20 1,
                 \<lambda>v. setUint16 v 22 channels,
                 \<lambda>v. setUint32 v 24 rate,
                 \<lambda>v. setUint32 v 28 (rate * 4),
                 \<lambda>v. setUint16 v 32 (channels * 2),
                 \<lambda>v. setUint16 v 34 16,
                 \<lambda>v. writeString v 36 ''data'',
                 \<lambda>v. setUint32 v 40 len] (replicate (44 + len) 0)
   = Inr ((charBytes ''RIFF'' @ le32 (of_nat (36 + len)) @
     charBytes ''WAVE'' @ charBytes ''fmt '' @ le32 (of_nat 16) @ le16 (of_nat 1) @
     le16 (of_nat channels) @ le32 (of_nat rate) @
     le32 (of_nat (rate * 4)) @ le16 (of_nat (channels * 2)) @
     le16 (of_nat 16) @ charBytes ''data'' @
     le32 (of_nat len)) @ replicate len 0)"
proof -
  let ?p1 = "[] @ charBytes ''RIFF''"
  let ?p2 = "?p1 @ le32 (of_nat (36 + len))"
  let ?p3 = "?p2 @ charBytes ''WAVE''"
  let ?p4 = "?p3 @ charBytes ''fmt ''"
  let ?p5 = "?p4 @ le32 (of_nat 16)"
  let ?p6 = "?p5 @ le16 (of_nat 1)"
  let ?p7 = "?p6 @ le16 (of_nat channels)"
  let ?p8 = "?p7 @ le32 (of_nat rate)"
  let ?p9 = "?p8 @ le32 (of_nat (rate * 4))"
  let ?p10 = "?p9 @ le16 (of_nat (channels * 2))"
  let ?p11 = "?p10 @ le16 (of_nat 16)"
  let ?p12 = "?p11 @ charBytes ''data''"
  let ?p13 = "?p12 @ le32 (of_nat len)"
  have s1: "writeString ([] @ replicate (44 + len) 0) 0 ''RIFF'' = Inr (?p1 @ replicate (40 + len) 0)"
    by (rule writeString_step) simp_all
  have s2: "setUint32 (?p1 @ replicate (40 + len) 0) 4 (36 + len) = Inr (?p2 @ replicate (36 + len) 0)"
    unfolding setUint32_def by (rule setBytes_step) simp_all
  have s3: "writeString (?p2 @ replicate (36 + len) 0) 8 ''WAVE'' = Inr (?p3 @ replicate (32 + len) 0)"
    by (rule writeString_step) simp_all
  have s4: "writeString (?p3 @ replicate (32 + len) 0) 12 ''fmt '' = Inr (?p4 @ replicate (28 + len) 0)"
    by (rule writeString_step) simp_all
  have s5: "setUint32 (?p4 @ replicate (28 + len) 0) 16 16 = Inr (?p5 @ replicate (24 + len) 0)"
    unfolding setUint32_def by (rule setBytes_step) simp_all
  have s6: "setUint16 (?p5 @ replicate (24 + len) 0) 20 1 = Inr (?p6 @ replicate (22 + len) 0)"
    unfolding setUint16_def by (rule setBytes_step) simp_all
  have s7: "setUint16 (?p6 @ replicate (22 + len) 0) 22 channels = Inr (?p7 @ replicate (20 + len) 0)"
    unfolding setUint16_def by (rule setBytes_step) simp_all
  have s8: "setUint32 (?p7 @ replicate (20 + len) 0) 24 rate = Inr (?p8 @ replicate (16 + len) 0)"
    unfolding setUint32_def by (rule setBytes_step) simp_all
  have s9: "setUint32 (?p8 @ replicate (16 + len) 0) 28 (rate * 4) = Inr (?p9 @ replicate (12 + len) 0)"
    unfolding setUint32_def by (rule setBytes_step) simp_all
  have s10: "setUint16 (?p9 @ replicate (12 + len) 0) 32 (channels * 2) = Inr (?p10 @ replicate (10 + len) 0)"
    unfolding setUint16_def by (rule setBytes_step) simp_all
  have s11: "setUint16 (?p10 @ replicate (10 + len) 0) 34 16 = Inr (?p11 @ replicate (8 + len) 0)"
    unfolding setUint16_def by (rule setBytes_step) simp_all
  have s12: "writeString (?p11 @ replicate (8 + len) 0) 36 ''data'' = Inr (?p12 @ replicate (4 + len) 0)"
    by (rule writeString_step) simp_all
  have s13: "setUint32 (?p12 @ replicate (4 + len) 0) 40 len = Inr (?p13 @ replicate len 0)"
    unfolding setUint32_def by (rule setBytes_step) simp_all
  have "forEach (\<lambda>write v. write v)
                [\<lambda>v. writeString v 0 ''RIFF'',
                 \<lambda>v. setUint32 v 4 (36 + len),
                 \<lambda>v. writeString v 8 ''WAVE'',
                 \<lambda>v. writeString v 12 ''fmt '',
                 \<lambda>v. setUint32 v 16 16,
                 \<lambda>v. setUint16 v 20 1,
                 \<lambda>v. setUint16 v 22 channels,
                 \<lambda>v. setUint32 v 24 rate,
                 \<lambda>v. setUint32 v 28 (rate * 4),
                 \<lambda>v. setUint16 v 32 (channels * 2),
                 \<lambda>v. setUint16 v 34 16,
                 \<lambda>v. writeString v 36 ''data'',
                 \<lambda>v. setUint32 v 40 len] ([] @ replicate (44 + len) 0) = Inr (?p13 @ replicate len 0)"
    by (simp only: forEach.simps s1 s2 s3 s4 s5 s6 s7 s8 s9 s10 s11 s12 s13 sum.case)
  then show ?thesis
    by (simp only: append_assoc append_Nil)
qed

lemma audioBufferToWav_eq: "audioBufferToWav b = Inr (headerBytes b @ dataBytes b)"
proof -
  let ?c = "numberOfChannels b"
  let ?len = "length_frames b * ?c * 2"
  have hdr: "forEach (\<lambda>write v. write v)
                [\<lambda>v. writeString v 0 ''RIFF'',
                 \<lambda>v. setUint32 v 4 (36 + ?len),
                 \<lambda>v. writeString v 8 ''WAVE'',
                 \<lambda>v. writeString v 12 ''fmt '',
                 \<lambda>v. setUint32 v 16 16,
                 \<lambda>v. setUint16 v 20 1,
                 \<lambda>v. setUint16 v 22 ?c,
                 \<lambda>v. setUint32 v 24 (sampleRate b),
                 \<lambda>v. setUint32 v 28 (sampleRate b * 4),
                 \<lambda>v. setUint16 v 32 (?c * 2),
                 \<lambda>v. setUint16 v 34 16,
                 \<lambda>v. writeString v 36 ''data'',
                 \<lambda>v. setUint32 v 40 ?len] (replicate (44 + ?len) 0)
      = Inr (headerBytes b @ replicate ?len 0)"
    unfolding headerBytes_def by (rule header_writes)
  have "forEach (\<lambda>i. forEach (\<lambda>ch. writeSample b i ch) [0..<?c]) [0..<length_frames b]
         (headerBytes b @ replicate ?len 0, length (headerBytes b))
       = Inr ((headerBytes b @ concat (map (frameBytes b) [0..<length_frames b])) @
                replicate (?len - 2 * ?c * length_frames b) 0,
              length (headerBytes b @ concat (map (frameBytes b) [0..<length_frames b])))"
    by (rule sample_loop) simp_all
  then have smp: "forEach (\<lambda>i. forEach (\<lambda>ch. writeSample b i ch) [0..<?c]) [0..<length_frames b]
         (headerBytes b @ replicate ?len 0, 44)
       = Inr (headerBytes b @ dataBytes b, 44 + length (dataBytes b))"
    by (simp add: length_headerBytes dataBytes_def)
  show ?thesis
    unfolding audioBufferToWav_def Let_def hdr sum.case smp by simp
qed

lemma nth_concat_uniform:
  "(\<And>i. i < n \<Longrightarrow> length (f i) = m) \<Longrightarrow> i < n \<Longrightarrow> j < m \<Longrightarrow>
     concat (map f [0..<n]) ! (i * m + j) = f i ! j"
proof (induction n)
  case 0 then show ?case by simp
next
  case (Suc n)
  have len: "length (concat (map f [0..<n])) = n * m"
    using Suc.prems(1)
  proof (induction n)
    case 0 show ?case by simp
  next
    case (Suc k) then show ?case by simp
  qed
  show ?case
  proof (cases "i < n")
    case True
    then have "i * m + j < n * m"
    proof -
      have "i * m + j < i * m + m" using Suc.prems(3) by simp
      also have "\<dots> = Suc i * m" by simp
      also have "\<dots> \<le> n * m" using True by (intro mult_le_mono1) simp
      finally show ?thesis .
    qed
    then show ?thesis
      using Suc.IH[OF _ True Suc.prems(3)] Suc.prems(1) by (simp add: nth_append len)
  next
    case False
    then have "i = n" using Suc.prems(2) by simp
    then show ?thesis by (simp add: nth_append len)
  qed
qed

lemma length_dataBytes: "length (dataBytes b) = 2 * numberOfChannels b * length_frames b"
  by (simp add: dataBytes_def length_frames_concat)

lemma nth_frameBytes:
  "ch < numberOfChannels b \<Longrightarrow> t < 2 \<Longrightarrow>
     frameBytes b i ! (ch * 2 + t) = le16 (sampleWord b i ch) ! t"
  unfolding frameBytes_def by (rule nth_concat_uniform) simp_all

lemma nth_dataBytes:
  assumes "i < length_frames b" and "ch < numberOfChannels b" and "t < 2"
  shows "dataBytes b ! (2 * (i * numberOfChannels b + ch) + t) = le16 (sampleWord b i ch) ! t"
proof -
  have "ch * 2 + t < 2 * numberOfChannels b" using assms by simp
  then have "dataBytes b ! (i * (2 * numberOfChannels b) + (ch * 2 + t)) = frameBytes b i ! (ch * 2 + t)"
    unfolding dataBytes_def using assms(1)
    by (intro nth_concat_uniform) (simp_all add: length_frameBytes)
  moreover have "i * (2 * numberOfChannels b) + (ch * 2 + t) = 2 * (i * numberOfChannels b + ch) + t"
    by (simp add: algebra_simps)
  ultimately show ?thesis using assms by (simp add: nth_frameBytes)
qed

lemma sint_toInt16:
  "- 32768 \<le> x \<Longrightarrow> x \<le> 32767 \<Longrightarrow> sint (toInt16 x) = (if x < 0 then \<lceil>x\<rceil> else \<lfloor>x\<rfloor>)"
proof -
  assume lo: "- 32768 \<le> x" and hi: "x \<le> 32767"
  let ?k = "if x < 0 then \<lceil>x\<rceil> else \<lfloor>x\<rfloor>"
  have "- 32768 \<le> ?k" using lo by (auto simp: le_ceiling_iff le_floor_iff)
  moreover have "?k < 32768" using hi by (auto simp: ceiling_less_iff floor_less_iff)
  ultimately have "signed_take_bit (LENGTH(16) - 1) ?k = ?k"
    by (intro signed_take_bit_int_eq_self) simp_all
  then show ?thesis
    unfolding toInt16_def sint_sbintrunc' .
qed

lemma cat_le16: "word_cat (ucast (drop_bit 8 w) :: byte) (ucast w :: byte) = (w :: 16 word)"
  by (rule bit_word_eqI) (auto simp: bit_word_cat_iff bit_ucast_iff bit_drop_bit_eq)

lemma cat_le32:
  "word_cat (word_cat (ucast (drop_bit 24 w) :: byte) (ucast (drop_bit 16 w) :: byte) :: 16 word)
            (word_cat (ucast (drop_bit 8 w) :: byte) (ucast w :: byte) :: 16 word) = (w :: 32 word)"
  by (rule bit_word_eqI) (auto simp: bit_word_cat_iff bit_ucast_iff bit_drop_bit_eq ac_simps)

lemma getUint16_le16:
  "length pre = off \<Longrightarrow> getUint16 (pre @ le16 w @ post) off = w"
  by (auto simp: getUint16_def le16_def nth_append cat_le16)

lemma getUint32_le32:
  "length pre = off \<Longrightarrow> getUint32 (pre @ le32 w @ post) off = w"
  by (auto simp: getUint32_def getUint16_def le32_def nth_append cat_le32)

lemma quantization_error:
  assumes "- 1 \<le> x" and "x \<le> 1"
  shows "\<bar>x - int16ToFloat (toInt16 (if x < 0 then x * 32768 else x * 32767))\<bar> < 1 / 32767"
proof (cases "x < 0")
  case True
  let ?k = "\<lceil>x * 32768\<rceil>"
  have s: "sint (toInt16 (x * 32768)) = ?k"
    using sint_toInt16[of "x * 32768"] assms True by (simp add: mult_less_0_iff)
  have up: "real_of_int ?k < x * 32768 + 1" by linarith
  have lo: "x * 32768 \<le> real_of_int ?k" by linarith
  have k0: "?k \<le> 0" using True by (simp add: ceiling_le_iff mult_less_0_iff less_imp_le)
  show ?thesis
  proof (cases "?k < 0")
    case True
    then show ?thesis using \<open>x < 0\<close> s up lo by (simp add: int16ToFloat_def field_simps)
  next
    case False
    then have z: "?k = 0" using k0 by linarith
    have "int16ToFloat (toInt16 (x * 32768)) = 0"
      unfolding int16ToFloat_def s z by simp
    moreover have "- 1 < x * 32768" using up unfolding z by simp
    ultimately show ?thesis using \<open>x < 0\<close> by simp
  qed
next
  case False
  let ?k = "\<lfloor>x * 32767\<rfloor>"
  have s: "sint (toInt16 (x * 32767)) = ?k"
    using sint_toInt16[of "x * 32767"] assms False by (simp add: mult_less_0_iff)
  have up: "x * 32767 < real_of_int ?k + 1" by linarith
  have lo: "real_of_int ?k \<le> x * 32767" by linarith
  have k0: "0 \<le> ?k" using False by simp
  show ?thesis using False s up lo k0 by (simp add: int16ToFloat_def field_simps)
qed

subsection \<open>Reading the encoder's output back\<close>

lemma wellFormed_channel_length:
  "wellFormed b \<Longrightarrow> ch < numberOfChannels b \<Longrightarrow> length (getChannelData b ch) = length_frames b"
  by (simp add: wellFormed_def numberOfChannels_def getChannelData_def list_all_length)

lemma getUint16_data:
  assumes "i < length_frames b" and "ch < numberOfChannels b"
  shows "getUint16 (headerBytes b @ dataBytes b) (44 + 2 * (i * numberOfChannels b + ch))
           = sampleWord b i ch"
proof -
  let ?p = "2 * (i * numberOfChannels b + ch)"
  have "dataBytes b ! (?p + 0) = le16 (sampleWord b i ch) ! 0"
    using assms by (intro nth_dataBytes) simp_all
  moreover have "dataBytes b ! (?p + 1) = le16 (sampleWord b i ch) ! 1"
    using assms by (intro nth_dataBytes) simp_all
  ultimately show ?thesis
    by (simp add: getUint16_def nth_append length_headerBytes le16_def cat_le16)
qed

lemma nth_encoded_data:
  assumes "i < length_frames b" and "ch < numberOfChannels b" and "t < 2"
  shows "(headerBytes b @ dataBytes b) ! (44 + 2 * (i * numberOfChannels b + ch) + t)
           = le16 (sampleWord b i ch) ! t"
  using nth_dataBytes[OF assms] by (simp add: nth_append length_headerBytes add.assoc)

lemma header_fields32:
  "getUint32 (headerBytes b @ rest) 4 = of_nat (36 + length_frames b * numberOfChannels b * 2)"
  "getUint32 (headerBytes b @ rest) 16 = 16"
  "getUint32 (headerBytes b @ rest) 24 = of_nat (sampleRate b)"
  "getUint32 (headerBytes b @ rest) 28 = of_nat (sampleRate b * 4)"
  "getUint32 (headerBytes b @ rest) 40 = of_nat (length_frames b * numberOfChannels b * 2)"
  by (simp_all add: headerBytes_def getUint32_def getUint16_def le32_def le16_def charBytes_def
      cat_le32 del: of_nat_mult of_nat_add)

lemma header_fields16:
  "getUint16 (headerBytes b @ rest) 20 = 1"
  "getUint16 (headerBytes b @ rest) 22 = of_nat (numberOfChannels b)"
  "getUint16 (headerBytes b @ rest) 32 = of_nat (numberOfChannels b * 2)"
  "getUint16 (headerBytes b @ rest) 34 = 16"
  by (simp_all add: headerBytes_def getUint16_def le32_def le16_def charBytes_def
      cat_le16 del: of_nat_mult of_nat_add)

lemma header_tags:
  "take 4 (headerBytes b @ rest) = charBytes ''RIFF''"
  "take 4 (drop 8 (headerBytes b @ rest)) = charBytes ''WAVE''"
  "take 4 (drop 12 (headerBytes b @ rest)) = charBytes ''fmt ''"
  "take 4 (drop 36 (headerBytes b @ rest)) = charBytes ''data''"
  by (simp_all add: headerBytes_def le32_def le16_def charBytes_def)


lemma unat_of_nat32: "n < 2 ^ 32 \<Longrightarrow> unat (of_nat n :: 32 word) = n"
  by (simp add: unat_of_nat)

lemma unat_of_nat16: "n < 2 ^ 16 \<Longrightarrow> unat (of_nat n :: 16 word) = n"
  by (simp add: unat_of_nat)

lemma decode_encoded:
  assumes "0 < numberOfChannels b" and "numberOfChannels b < 2 ^ 16" and "sampleRate b < 2 ^ 32"
    and "36 + length_frames b * numberOfChannels b * 2 < 2 ^ 32"
  shows "decode (headerBytes b @ dataBytes b) =
           Inr \<lparr>sampleRate = sampleRate b, length_frames = length_frames b,
                channelData = map (\<lambda>ch. map (\<lambda>i. int16ToFloat (sampleWord b i ch))
                                             [0..<length_frames b])
                                [0..<numberOfChannels b]\<rparr>"
proof -
  let ?c = "numberOfChannels b"
  let ?len = "length_frames b * ?c * 2"
  let ?bytes = "headerBytes b @ dataBytes b"
  have L: "length ?bytes = 44 + ?len"
    by (simp add: length_headerBytes length_dataBytes mult.commute mult.left_commute)
  have u4: "unat (of_nat (36 + ?len) :: 32 word) = 36 + ?len"
    using assms(4) by (rule unat_of_nat32)
  have u24: "unat (of_nat (sampleRate b) :: 32 word) = sampleRate b"
    using assms(3) by (rule unat_of_nat32)
  have u40: "unat (of_nat ?len :: 32 word) = ?len"
    using assms(4) by (intro unat_of_nat32) simp
  have u22: "unat (of_nat ?c :: 16 word) = ?c"
    using assms(2) by (rule unat_of_nat16)
  have dv: "?len mod (2 * ?c) = 0" "?len div (2 * ?c) = length_frames b"
    using assms(1) by (simp_all add: mult.commute mult.left_commute)
  have samples:
    "map (\<lambda>ch. map (\<lambda>i. int16ToFloat (getUint16 ?bytes (44 + 2 * (i * ?c + ch))))
                  [0..<length_frames b]) [0..<?c]
     = map (\<lambda>ch. map (\<lambda>i. int16ToFloat (sampleWord b i ch)) [0..<length_frames b]) [0..<?c]"
    by (intro map_cong refl) (simp add: getUint16_data del: distrib_left_numeral)
  have "decode ?bytes =
          Inr \<lparr>sampleRate = sampleRate b, length_frames = length_frames b,
               channelData =
                 map (\<lambda>ch. map (\<lambda>i. int16ToFloat (getUint16 ?bytes (44 + 2 * (i * ?c + ch))))
                              [0..<length_frames b]) [0..<?c]\<rparr>"
    unfolding decode_def Let_def header_tags header_fields16 header_fields32 u4 u24 u40 u22 dv L
    using assms(1) by simp
  then show ?thesis
    unfolding samples .
qed

lemma roundTrip_eq:
  assumes "0 < numberOfChannels b" and "numberOfChannels b < 2 ^ 16" and "sampleRate b < 2 ^ 32"
    and "36 + length_frames b * numberOfChannels b * 2 < 2 ^ 32"
  shows "roundTrip b =
           Some \<lparr>sampleRate = sampleRate b, length_frames = length_frames b,
                 channelData = map (\<lambda>ch. map (\<lambda>i. int16ToFloat (sampleWord b i ch))
                                             [0..<length_frames b])
                                [0..<numberOfChannels b]\<rparr>"
  by (simp add: roundTrip_def audioBufferToWav_eq decode_encoded[OF assms])

lemma sampleWord_quant: "sampleWord quantBuffer 0 0 = 0" "sampleWord quantBuffer (Suc 0) 0 = 0"
  by (simp_all add: sampleWord_def sampleAt_def getChannelData_def quantBuffer_def toInt16_def Let_def)

subsection \<open>The gain node\<close>



lemma fround_zero [simp]: "fround 0 = 0"
  by (simp add: fround_def)




lemma applyGain_silent: "findPeak b = 0 \<Longrightarrow> applyGain g b = b"
proof -
  assume "findPeak b = 0"
  then have z: "\<forall>c\<in>set (channelData b). \<forall>x\<in>set c. x = 0"
    by (simp add: findPeak_zero_iff)
  have inner: "map (\<lambda>x. fround (x * g)) c = c" if c: "c \<in> set (channelData b)" for c
  proof (rule map_idI)
    fix x assume "x \<in> set c"
    then have "x = 0" using z c by blast
    then show "fround (x * g) = x" by simp
  qed
  have "map (map (\<lambda>x. fround (x * g))) (channelData b) = channelData b"
  proof (rule map_idI)
    fix c assume "c \<in> set (channelData b)"
    then show "map (\<lambda>x. fround (x * g)) c = c" by (rule inner)
  qed
  then show ?thesis by (simp add: applyGain_def)
qed

lemma pow2_neq0 [simp]: "pow2 e \<noteq> 0"
  by (simp add: pow2_def)

lemma fround_exact:
  assumes "0 < x" and "pow2 e \<le> x" and "x < pow2 (e + 1)" and "- 126 \<le> e"
    and "x / pow2 (e - 23) = of_int n"
  shows "fround x = x"
proof -
  have "fround x = of_int (roundHalfEven (x / pow2 (e - (int 24 - 1)))) * pow2 (e - (int 24 - 1))"
    unfolding fround_def using assms(1-4) by (rule roundBinary_eval)
  also have "\<dots> = of_int n * pow2 (e - 23)" using assms(5) by simp
  also have "\<dots> = x / pow2 (e - 23) * pow2 (e - 23)" using assms(5) by simp
  also have "\<dots> = x" by simp
  finally show ?thesis .
qed

lemma fround_one [simp]: "fround 1 = 1"
  by (rule fround_exact[of 1 0 "2 ^ 23"]) simp_all

lemma targetPeak_value: "targetPeak = 6376196352431148 / 2 ^ 53"
proof -
  have "(0.7079 :: real) = 7079 / 10000" by simp
  then show ?thesis unfolding targetPeak_def by (simp only: double_7079)
qed





lemma targetPeak_nonneg: "0 \<le> targetPeak"
  by (simp add: targetPeak_value)

lemma gainFactor_nonneg: "0 \<le> gainFactor b"
proof -
  have "0 \<le> double (targetPeak / findPeak b)" if "0 < findPeak b"
    unfolding double_def using that targetPeak_nonneg by (intro roundBinary_nonneg) simp
  then show ?thesis by (simp add: gainFactor_def Let_def)
qed

lemma fround_nonneg: "0 \<le> x \<Longrightarrow> 0 \<le> fround x"
  unfolding fround_def by (rule roundBinary_nonneg)

lemma startRendering_Nil: "startRendering h [] b = b"
  by (simp add: startRendering_def)

lemma applyNormalize_eq:
  "applyNormalize h b =
     (if fround (gainFactor b) < 2 ^ 128 then Inr (applyGain (fround (gainFactor b)) b)
      else Inl TypeError)"
  using fround_nonneg[OF gainFactor_nonneg[of b]]
  by (simp add: applyNormalize_def startRendering_def)

lemma applyNormalize_silent: "findPeak b = 0 \<Longrightarrow> applyNormalize h b = Inr b"
  by (simp add: applyNormalize_eq gainFactor_def applyGain_silent)



lemma findPeak_silentBuffer: "findPeak silentBuffer = 0"
  by (simp add: findPeak_fold silentBuffer_def)

subsection \<open>Manual parameters and the entry point\<close>

lemma audioParam_error: "audioParam n = Inl e \<Longrightarrow> e = TypeError"
  by (cases n) (auto split: if_splits)

lemma bindE_Inl: "bindE m f = Inl e \<Longrightarrow> m = Inl e \<or> (\<exists>x. m = Inr x \<and> f x = Inl e)"
  by (cases m) auto

lemma bindE_Inr: "bindE m f = Inr y \<Longrightarrow> \<exists>x. m = Inr x \<and> f x = Inr y"
  by (cases m) auto

lemma bassBlock_error: "bassBlock p ns = Inl e \<Longrightarrow> e = TypeError"
  by (auto simp: bassBlock_def split: option.splits if_splits dest!: bindE_Inl audioParam_error)

lemma trebleBlock_error: "trebleBlock p ns = Inl e \<Longrightarrow> e = TypeError"
  by (auto simp: trebleBlock_def split: option.splits if_splits dest!: bindE_Inl audioParam_error)

lemma highpassBlock_error: "highpassBlock p ns = Inl e \<Longrightarrow> e = TypeError"
  by (auto simp: highpassBlock_def split: option.splits if_splits dest!: bindE_Inl audioParam_error)

lemma lowpassBlock_error: "lowpassBlock p ns = Inl e \<Longrightarrow> e = TypeError"
  by (auto simp: lowpassBlock_def split: option.splits if_splits dest!: bindE_Inl audioParam_error)

lemma compressionBlock_error: "compressionBlock p ns = Inl e \<Longrightarrow> e = TypeError"
  by (auto simp: compressionBlock_def split: option.splits if_splits
      dest!: bindE_Inl audioParam_error)

lemma normalizeBlock_error: "normalizeBlock p ns = Inl e \<Longrightarrow> e = TypeError"
  by (auto simp: normalizeBlock_def split: option.splits if_splits
      dest!: bindE_Inl audioParam_error)

lemma manualNodes_error: "manualNodes p = Inl e \<Longrightarrow> e = TypeError"
  unfolding manualNodes_def
  by (auto dest!: bindE_Inl
      dest: bassBlock_error trebleBlock_error highpassBlock_error lowpassBlock_error
        compressionBlock_error normalizeBlock_error)

lemma previewManualProcessing_error: "previewManualProcessing h b p = Inl e \<Longrightarrow> e = TypeError"
  unfolding previewManualProcessing_def
  by (auto dest!: bindE_Inl dest: manualNodes_error)

lemma applyNormalize_error: "applyNormalize h b = Inl e \<Longrightarrow> e = TypeError"
  by (simp add: applyNormalize_eq split: if_splits)

lemma presets_error: "map_of presets name = Some apply \<Longrightarrow> apply h b = Inl e \<Longrightarrow> e = TypeError"
  by (auto simp: presets_def applyBassBoost_def applyStudioSound_def applyPodcastVoice_def
      applyAsmr_def applyNoiseReduction_def applyRadioVoice_def applyVinylEffect_def
      applyPhoneCall_def applyCompression_def split: if_splits dest: applyNormalize_error)

lemma objectPrototype_error:
  "map_of objectPrototype name = Some member \<Longrightarrow> member b = Inl e \<Longrightarrow> e = TypeError"
  by (auto simp: objectPrototype_def split: if_splits)

lemma map_sum_Inl: "map_sum id f m = Inl e \<Longrightarrow> m = Inl e"
  by (cases m) auto

lemma callPreset_error: "callPreset h name b = Inl e \<Longrightarrow> e = TypeError"
  unfolding callPreset_def
  by (cases "map_of presets name"; cases "map_of objectPrototype name")
     (auto dest: presets_error objectPrototype_error dest!: map_sum_Inl)

lemma map_of_presets_normalize: "map_of presets ''normalize'' = Some applyNormalize"
  by (simp add: presets_def)

lemma map_of_presets_empty: "map_of presets [] = None"
  by (simp add: presets_def)

lemma inPresets_iff:
  "inPresets name \<longleftrightarrow>
     name \<in> {''bass-boost'', ''studio-sound'', ''podcast-voice'', ''asmr'', ''noise-reduction'',
              ''radio-voice'', ''vinyl-effect'', ''phone-call'', ''normalize'', ''compression''} \<or>
     name \<in> {''constructor'', ''__defineGetter__'', ''__defineSetter__'', ''hasOwnProperty'',
              ''__lookupGetter__'', ''__lookupSetter__'', ''isPrototypeOf'',
              ''propertyIsEnumerable'', ''toString'', ''valueOf'', ''__proto__'',
              ''toLocaleString''}"
  unfolding inPresets_def map_of_eq_None_iff
  by (simp add: presets_def objectPrototype_def)

lemma processAudio_None:
  "processAudio h b None manual =
     (case manual of
        Some params \<Rightarrow> map_sum id Buffer (previewManualProcessing h b params)
      | None \<Rightarrow> Inl (Error ''Invalid preset or parameters''))"
  by (simp add: processAudio_def)

lemma processAudio_not_in:
  "name = [] \<or> \<not> inPresets name \<Longrightarrow>
   processAudio h b (Some name) manual = processAudio h b None manual"
  by (auto simp: processAudio_def)

lemma processAudio_in:
  "name \<noteq> [] \<Longrightarrow> inPresets name \<Longrightarrow>
   processAudio h b (Some name) manual = callPreset h name b"
  by (simp add: processAudio_def)

lemma processAudio_own:
  assumes "map_of presets name = Some apply"
  shows "processAudio h b (Some name) manual = map_sum id Buffer (apply h b)"
proof -
  have "name \<noteq> []" using assms map_of_presets_empty by auto
  moreover have "inPresets name" using assms by (simp add: inPresets_def)
  ultimately show ?thesis
    using assms by (simp add: processAudio_in callPreset_def)
qed

lemma processAudio_constructor: "processAudio h b (Some ''constructor'') manual = Inr (Buffer b)"
  by (simp add: processAudio_in inPresets_iff callPreset_def presets_def objectPrototype_def)

lemma processAudio_proto: "processAudio h b (Some ''__proto__'') manual = Inl TypeError"
  by (simp add: processAudio_in inPresets_iff callPreset_def presets_def objectPrototype_def)

lemma manual_error: "map_sum id Buffer (previewManualProcessing h b p) \<noteq> Inl (Error m)"
  using previewManualProcessing_error[of h b p "Error m"] by (auto dest!: map_sum_Inl)

lemmas block_defs = bassBlock_def trebleBlock_def highpassBlock_def lowpassBlock_def
  compressionBlock_def normalizeBlock_def

lemma manualNodes_highpass_ignored:
  "v \<le> 0 \<Longrightarrow> manualNodes (p\<lparr>highpass := Some (Finite v)\<rparr>) = manualNodes (p\<lparr>highpass := None\<rparr>)"
  by (simp add: manualNodes_def block_defs)

lemma manualNodes_lowpass_ignored:
  "v \<le> 0 \<Longrightarrow> manualNodes (p\<lparr>lowpass := Some (Finite v)\<rparr>) = manualNodes (p\<lparr>lowpass := None\<rparr>)"
  by (simp add: manualNodes_def block_defs)

lemma manualNodes_normalize_ignored:
  "v \<le> 0 \<Longrightarrow> manualNodes (p\<lparr>normalize := Some (Finite v)\<rparr>) = manualNodes (p\<lparr>normalize := None\<rparr>)"
  by (simp add: manualNodes_def block_defs)

lemma processAudio_manual:
  "processAudio h b None (Some p) = map_sum id Buffer (previewManualProcessing h b p)"
  by (simp add: processAudio_def)

lemma processAudio_no_nodes:
  "manualNodes p = Inr [] \<Longrightarrow> processAudio h b None (Some p) = Inr (Buffer b)"
  by (simp add: processAudio_def previewManualProcessing_def startRendering_def)

lemma manualNodes_only_highpass:
  "v \<le> 0 \<Longrightarrow> manualNodes (noParams\<lparr>highpass := Some (Finite v)\<rparr>) = Inr []"
  by (simp add: manualNodes_def block_defs noParams_def)

lemma manualNodes_only_lowpass:
  "v \<le> 0 \<Longrightarrow> manualNodes (noParams\<lparr>lowpass := Some (Finite v)\<rparr>) = Inr []"
  by (simp add: manualNodes_def block_defs noParams_def)

lemma manualNodes_only_normalize:
  "v \<le> 0 \<Longrightarrow> manualNodes (noParams\<lparr>normalize := Some (Finite v)\<rparr>) = Inr []"
  by (simp add: manualNodes_def block_defs noParams_def)

lemma manualNodes_only_compression:
  "v \<noteq> 0 \<Longrightarrow> \<bar>fround (double (3 + \<bar>v\<bar>))\<bar> < 2 ^ 128 \<Longrightarrow>
   manualNodes (noParams\<lparr>compression := Some (Finite v)\<rparr>)
     = Inr [DynamicsCompressor (- 24) 30 (double (3 + \<bar>v\<bar>)) (double 0.003) 0.25]"
  by (simp add: manualNodes_def block_defs noParams_def)

lemma bassBlock_set: "bassBlock p ns = Inr ms \<Longrightarrow> set ns \<subseteq> set ms"
  by (auto simp: bassBlock_def split: option.splits if_splits dest!: bindE_Inr)

lemma trebleBlock_set: "trebleBlock p ns = Inr ms \<Longrightarrow> set ns \<subseteq> set ms"
  by (auto simp: trebleBlock_def split: option.splits if_splits dest!: bindE_Inr)

lemma highpassBlock_set: "highpassBlock p ns = Inr ms \<Longrightarrow> set ns \<subseteq> set ms"
  by (auto simp: highpassBlock_def split: option.splits if_splits dest!: bindE_Inr)

lemma lowpassBlock_set: "lowpassBlock p ns = Inr ms \<Longrightarrow> set ns \<subseteq> set ms"
  by (auto simp: lowpassBlock_def split: option.splits if_splits dest!: bindE_Inr)

lemma normalizeBlock_set: "normalizeBlock p ns = Inr ms \<Longrightarrow> set ns \<subseteq> set ms"
  by (auto simp: normalizeBlock_def split: option.splits if_splits dest!: bindE_Inr)

lemma compressionBlock_node:
  assumes "compression p = Some (Finite v)" and "v \<noteq> 0" and "compressionBlock p ns = Inr ms"
  shows "ms = ns @ [DynamicsCompressor (- 24) 30 (double (3 + \<bar>v\<bar>)) (double 0.003) 0.25]"
  using assms by (auto simp: compressionBlock_def split: if_splits dest!: bindE_Inr)

lemma manualNodes_compression:
  assumes "compression p = Some (Finite v)" and "v \<noteq> 0" and "manualNodes p = Inr nodes"
  shows "DynamicsCompressor (- 24) 30 (double (3 + \<bar>v\<bar>)) (double 0.003) 0.25 \<in> set nodes"
proof -
  from assms(3) obtain n4 n5
    where c: "compressionBlock p n4 = Inr n5" and n: "normalizeBlock p n5 = Inr nodes"
    unfolding manualNodes_def by (auto dest!: bindE_Inr)
  have "DynamicsCompressor (- 24) 30 (double (3 + \<bar>v\<bar>)) (double 0.003) 0.25 \<in> set n5"
    using compressionBlock_node[OF assms(1,2) c] by simp
  then show ?thesis
    using normalizeBlock_set[OF n] by blast
qed

lemma double_exact:
  assumes "0 < x" and "pow2 e \<le> x" and "x < pow2 (e + 1)" and "- 1022 \<le> e"
    and "x / pow2 (e - 52) = of_int n"
  shows "double x = x"
proof -
  have "double x = of_int (roundHalfEven (x / pow2 (e - (int 53 - 1)))) * pow2 (e - (int 53 - 1))"
    unfolding double_def using assms(1-4) by (rule roundBinary_eval)
  also have "\<dots> = of_int n * pow2 (e - 52)" using assms(5) by simp
  also have "\<dots> = x / pow2 (e - 52) * pow2 (e - 52)" using assms(5) by simp
  also have "\<dots> = x" by simp
  finally show ?thesis .
qed

lemma double_five: "double 5 = 5"
  by (rule double_exact[of 5 2 "5 * 2 ^ 50"]) simp_all

lemma fround_five: "fround 5 = 5"
  by (rule fround_exact[of 5 2 "5 * 2 ^ 21"]) simp_all

subsection \<open>The second player\<close>


lemma play_context: "isPlaying_ap (play pos now ok s) \<Longrightarrow> isPlaying_ap s \<longrightarrow> audioContextRef s \<Longrightarrow>
    audioContextRef (play pos now ok s)"
  by (auto simp: play_def stopPlayback_def split: option.splits if_splits)



section \<open>Theorems\<close>

text \<open>
  C1. The encoder never fails and returns \<open>44 + 2 * channels * frames\<close> bytes. For
  every frame \<open>i\<close> and channel \<open>ch\<close> of the buffer whose sample exists, the sample is first
  clipped to \<open>[-1, 1]\<close> (a sample already inside is kept), the clipped value is multiplied
  by 0x8000 when it is negative and by 0x7FFF otherwise, and the 16-bit signed value read
  little-endian at byte offset \<open>44 + 2 * (i * channels + ch)\<close>, that is interleaved by
  channel right behind the 44-byte header, is that product with its fraction dropped; the
  low byte is at the offset, the high byte behind it.
\<close>

theorem C1_encoder_samples:
  assumes "i < length_frames b" and "ch < numberOfChannels b"
    and "i < length (getChannelData b ch)"
  shows "\<exists>bytes. audioBufferToWav b = Inr bytes \<and>
           length bytes = 44 + 2 * numberOfChannels b * length_frames b \<and>
           take 44 bytes = headerBytes b \<and>
           (let s = getChannelData b ch ! i;
                clipped = max (- 1) (min 1 s);
                scaled = (if clipped < 0 then clipped * 0x8000 else clipped * 0x7FFF);
                pos = 44 + 2 * (i * numberOfChannels b + ch)
            in - 1 \<le> clipped \<and> clipped \<le> 1 \<and> (- 1 \<le> s \<and> s \<le> 1 \<longrightarrow> clipped = s) \<and>
               sint (getUint16 bytes pos) = (if scaled < 0 then \<lceil>scaled\<rceil> else \<lfloor>scaled\<rfloor>) \<and>
               bytes ! pos = ucast (toInt16 scaled) \<and>
               bytes ! (pos + 1) = ucast (drop_bit 8 (toInt16 scaled)))"
proof -
  let ?s = "getChannelData b ch ! i"
  let ?c = "max (- 1) (min 1 ?s)"
  let ?v = "if ?c < 0 then ?c * 32768 else ?c * 32767"
  let ?pos = "44 + 2 * (i * numberOfChannels b + ch)"
  let ?bytes = "headerBytes b @ dataBytes b"
  have at: "sampleAt b ch i = Some ?s"
    using assms(3) by (simp add: sampleAt_def Let_def)
  then have w: "sampleWord b i ch = toInt16 ?v"
    by (simp add: sampleWord_def Let_def)
  have c: "- 1 \<le> ?c" "?c \<le> 1" by simp_all
  have range: "- 32768 \<le> ?v" "?v \<le> 32767"
    using c by (auto simp: mult_le_0_iff)
  have sg: "sint (getUint16 ?bytes ?pos) = (if ?v < 0 then \<lceil>?v\<rceil> else \<lfloor>?v\<rfloor>)"
    using getUint16_data[OF assms(1,2)] sint_toInt16[OF range] by (simp only: w)
  have b0: "?bytes ! ?pos = ucast (toInt16 ?v)"
    using nth_encoded_data[OF assms(1,2), of 0] by (simp add: w le16_def)
  have b1: "?bytes ! (?pos + 1) = ucast (drop_bit 8 (toInt16 ?v))"
    using nth_encoded_data[OF assms(1,2), of 1] by (simp add: w le16_def)
  have len: "length ?bytes = 44 + 2 * numberOfChannels b * length_frames b"
    by (simp add: length_headerBytes length_dataBytes)
  have hd: "take 44 ?bytes = headerBytes b"
    by (simp add: length_headerBytes)
  have cl: "- 1 \<le> ?s \<and> ?s \<le> 1 \<longrightarrow> ?c = ?s" by simp
  show ?thesis
    unfolding Let_def using audioBufferToWav_eq[of b] len hd c cl sg b0 b1
    by (intro exI[of _ ?bytes]) simp
qed

theorem C1_encoder_samples_witness:
  "1 < length_frames halfBuffer \<and> 1 < numberOfChannels halfBuffer \<and>
   1 < length (getChannelData halfBuffer 1) \<and>
   (\<exists>bytes. audioBufferToWav halfBuffer = Inr bytes \<and> length bytes = 52 \<and>
      sint (getUint16 bytes 50) = 4095)"
proof -
  have n: "numberOfChannels halfBuffer = 2" "length_frames halfBuffer = 2"
      "length (getChannelData halfBuffer (Suc 0)) = 2"
    by (simp_all add: halfBuffer_def numberOfChannels_def getChannelData_def)
  have s: "getChannelData halfBuffer (Suc 0) ! Suc 0 = 1 / 8"
    by (simp add: halfBuffer_def getChannelData_def)
  show ?thesis
    using C1_encoder_samples[of 1 halfBuffer 1] by (simp add: n s Let_def) blast
qed

text \<open>
  C2, as the code and the modelled decoder have it. For a well-formed buffer with every
  sample in \<open>[-1, 1]\<close> whose header fields fit their widths (fewer than \<open>2^16\<close> channels,
  a sample rate below \<open>2^32\<close>, \<open>36 +\<close> data length below \<open>2^32\<close>), decoding the encoded
  bytes succeeds and gives a well-formed buffer of the same sample rate, length and channel
  count, in which every sample differs from the original by less than \<open>1/32767\<close>.
\<close>

theorem C2_round_trip_bound:
  assumes "wellFormed b"
    and "\<forall>c\<in>set (channelData b). \<forall>x\<in>set c. - 1 \<le> x \<and> x \<le> 1"
    and "numberOfChannels b < 2 ^ 16" and "sampleRate b < 2 ^ 32"
    and "36 + length_frames b * numberOfChannels b * 2 < 2 ^ 32"
  shows "\<exists>b'. roundTrip b = Some b' \<and> wellFormed b' \<and>
           sampleRate b' = sampleRate b \<and> length_frames b' = length_frames b \<and>
           numberOfChannels b' = numberOfChannels b \<and>
           (\<forall>ch<numberOfChannels b. \<forall>i<length_frames b.
              \<bar>getChannelData b ch ! i - getChannelData b' ch ! i\<bar> < 1 / 32767)"
proof -
  let ?b' = "\<lparr>sampleRate = sampleRate b, length_frames = length_frames b,
              channelData = map (\<lambda>ch. map (\<lambda>i. int16ToFloat (sampleWord b i ch))
                                          [0..<length_frames b])
                             [0..<numberOfChannels b]\<rparr>"
  have pos: "0 < numberOfChannels b" "0 < sampleRate b"
    using assms(1) by (simp_all add: wellFormed_def)
  have rt: "roundTrip b = Some ?b'"
    using pos(1) assms(3,4,5) by (rule roundTrip_eq)
  have wf: "wellFormed ?b'"
    using pos by (simp add: wellFormed_def numberOfChannels_def list_all_iff)
  have err: "\<bar>getChannelData b ch ! i - getChannelData ?b' ch ! i\<bar> < 1 / 32767"
    if ch: "ch < numberOfChannels b" and i: "i < length_frames b" for ch i
  proof -
    let ?x = "getChannelData b ch ! i"
    have len: "length (getChannelData b ch) = length_frames b"
      using assms(1) ch by (rule wellFormed_channel_length)
    have mem: "getChannelData b ch \<in> set (channelData b)"
      using ch by (simp add: getChannelData_def numberOfChannels_def)
    have "?x \<in> set (getChannelData b ch)"
      using i len by simp
    then have range: "- 1 \<le> ?x" "?x \<le> 1"
      using assms(2) mem by auto
    have "sampleAt b ch i = Some ?x"
      using i len by (simp add: sampleAt_def Let_def)
    then have "sampleWord b i ch = toInt16 (if ?x < 0 then ?x * 32768 else ?x * 32767)"
      using range by (simp add: sampleWord_def Let_def)
    moreover have "getChannelData ?b' ch ! i = int16ToFloat (sampleWord b i ch)"
      using ch i by (simp add: getChannelData_def)
    ultimately show ?thesis
      using quantization_error[OF range] by simp
  qed
  show ?thesis
    using rt wf err by (intro exI[of _ ?b']) (simp add: numberOfChannels_def)
qed

theorem C2_round_trip_bound_witness:
  "wellFormed halfBuffer \<and>
   (\<exists>b'. roundTrip halfBuffer = Some b' \<and>
      \<bar>getChannelData halfBuffer 1 ! 1 - getChannelData b' 1 ! 1\<bar> < 1 / 32767)"
proof -
  have wf: "wellFormed halfBuffer"
    by (simp add: wellFormed_def halfBuffer_def numberOfChannels_def)
  have n: "numberOfChannels halfBuffer = 2" "length_frames halfBuffer = 2"
      "sampleRate halfBuffer = 44100"
    by (simp_all add: halfBuffer_def numberOfChannels_def)
  have r: "\<forall>c\<in>set (channelData halfBuffer). \<forall>x\<in>set c. - 1 \<le> x \<and> x \<le> 1"
    by (simp add: halfBuffer_def)
  obtain b' where b': "roundTrip halfBuffer = Some b'"
    and e: "\<forall>ch<numberOfChannels halfBuffer. \<forall>i<length_frames halfBuffer.
              \<bar>getChannelData halfBuffer ch ! i - getChannelData b' ch ! i\<bar> < 1 / 32767"
    using C2_round_trip_bound[OF wf r] by (auto simp: n)
  have "\<bar>getChannelData halfBuffer 1 ! 1 - getChannelData b' 1 ! 1\<bar> < 1 / 32767"
    using e by (simp add: n)
  then show ?thesis
    using wf b' by blast
qed

text \<open>
  C2 as stated fails. The one-channel buffer \<open>quantBuffer\<close> is well-formed with both
  samples inside \<open>[-1, 1]\<close>; its round trip succeeds, and the second sample,
  \<open>(2^16 + 1) / 2^31\<close>, comes back as 0, further than \<open>1/32768\<close> from the original.
  Both samples are encoded as the same 16-bit value although they lie more than
  \<open>2/32768\<close> apart, so no value given to that 16-bit value is within \<open>1/32768\<close> of both.
\<close>

theorem C2_round_trip_counterexample:
  "wellFormed quantBuffer \<and>
   - 1 \<le> getChannelData quantBuffer 0 ! 0 \<and> getChannelData quantBuffer 0 ! 0 \<le> 1 \<and>
   - 1 \<le> getChannelData quantBuffer 0 ! 1 \<and> getChannelData quantBuffer 0 ! 1 \<le> 1 \<and>
   roundTrip quantBuffer = Some quantDecoded \<and>
   \<not> \<bar>getChannelData quantBuffer 0 ! 1 - getChannelData quantDecoded 0 ! 1\<bar> \<le> 1 / 32768 \<and>
   sampleWord quantBuffer 0 0 = sampleWord quantBuffer 1 0 \<and>
   2 * (1 / 32768) < getChannelData quantBuffer 0 ! 1 - getChannelData quantBuffer 0 ! 0"
proof -
  have wf: "wellFormed quantBuffer"
    by (simp add: wellFormed_def quantBuffer_def numberOfChannels_def)
  have n: "numberOfChannels quantBuffer = 1" "length_frames quantBuffer = 2"
      "sampleRate quantBuffer = 44100"
    by (simp_all add: quantBuffer_def numberOfChannels_def)
  have "roundTrip quantBuffer =
           Some \<lparr>sampleRate = sampleRate quantBuffer, length_frames = length_frames quantBuffer,
                 channelData = map (\<lambda>ch. map (\<lambda>i. int16ToFloat (sampleWord quantBuffer i ch))
                                             [0..<length_frames quantBuffer])
                                [0..<numberOfChannels quantBuffer]\<rparr>"
    by (rule roundTrip_eq) (simp_all add: n)
  also have "[0..<length_frames quantBuffer] = [0, 1]"
    unfolding n by (simp add: upt_rec)
  also have "[0..<numberOfChannels quantBuffer] = [0]"
    unfolding n by simp
  finally have rt: "roundTrip quantBuffer = Some quantDecoded"
    by (simp add: n sampleWord_quant int16ToFloat_def quantDecoded_def)
  show ?thesis
    using wf rt
    by (simp add: sampleWord_quant) (simp add: quantBuffer_def quantDecoded_def getChannelData_def)
qed




text \<open>
  C4. With a manual parameter set in which every parameter is left out or 0, no node is
  appended, and both \<open>previewManualProcessing\<close> and \<open>processAudio\<close> return the input
  buffer itself, whatever the host's nodes compute.
\<close>

theorem C4_neutral_params_identity:
  assumes "bass p \<in> {None, Some (Finite 0)}" and "treble p \<in> {None, Some (Finite 0)}"
    and "compression p \<in> {None, Some (Finite 0)}" and "normalize p \<in> {None, Some (Finite 0)}"
    and "lowpass p \<in> {None, Some (Finite 0)}" and "highpass p \<in> {None, Some (Finite 0)}"
  shows "manualNodes p = Inr [] \<and> previewManualProcessing h b p = Inr b \<and>
         processAudio h b None (Some p) = Inr (Buffer b)"
proof -
  have "manualNodes p = Inr []"
    using assms by (auto simp: manualNodes_def block_defs)
  then show ?thesis
    by (simp add: previewManualProcessing_def processAudio_def startRendering_def)
qed

theorem C4_neutral_params_identity_witness:
  "manualNodes neutralParams = Inr [] \<and>
   previewManualProcessing bypassHost halfBuffer neutralParams = Inr halfBuffer \<and>
   processAudio bypassHost halfBuffer None (Some neutralParams) = Inr (Buffer halfBuffer)"
  using C4_neutral_params_identity[of neutralParams bypassHost halfBuffer]
  by (simp add: neutralParams_def)

text \<open>
  C5, as the code has it. \<open>processAudio\<close> fails with the error of the message
  \<open>Invalid preset or parameters\<close>, the only \<open>Error\<close> it fails with, exactly when no
  manual parameter set is given and the preset is left out, empty or not a property name
  of the table. The property names of the table are its ten own keys and the twelve names
  it inherits from \<open>Object.prototype\<close>. An own preset is applied whether or not manual
  parameters are given as well; manual parameters are applied when the preset is left out,
  empty or no property name. The inherited name \<open>constructor\<close> returns the input buffer
  and \<open>__proto__\<close> ends in a \<open>TypeError\<close>, with or without manual parameters.
\<close>

theorem C5_processAudio_failure:
  "(processAudio h b preset manual = Inl (Error ''Invalid preset or parameters'') \<longleftrightarrow>
      manual = None \<and> (\<forall>name. preset = Some name \<longrightarrow> name = [] \<or> \<not> inPresets name)) \<and>
   (\<forall>m. processAudio h b preset manual = Inl (Error m) \<longrightarrow> m = ''Invalid preset or parameters'') \<and>
   (\<forall>name apply. preset = Some name \<and> map_of presets name = Some apply \<longrightarrow>
      processAudio h b preset manual = map_sum id Buffer (apply h b)) \<and>
   (\<forall>p. manual = Some p \<and> (\<forall>name. preset = Some name \<longrightarrow> name = [] \<or> \<not> inPresets name) \<longrightarrow>
      processAudio h b preset manual = map_sum id Buffer (previewManualProcessing h b p)) \<and>
   (\<forall>name. inPresets name \<longleftrightarrow>
      name \<in> {''bass-boost'', ''studio-sound'', ''podcast-voice'', ''asmr'', ''noise-reduction'',
               ''radio-voice'', ''vinyl-effect'', ''phone-call'', ''normalize'', ''compression''} \<or>
      name \<in> {''constructor'', ''__defineGetter__'', ''__defineSetter__'', ''hasOwnProperty'',
               ''__lookupGetter__'', ''__lookupSetter__'', ''isPrototypeOf'',
               ''propertyIsEnumerable'', ''toString'', ''valueOf'', ''__proto__'',
               ''toLocaleString''}) \<and>
   (preset = Some ''constructor'' \<longrightarrow> processAudio h b preset manual = Inr (Buffer b)) \<and>
   (preset = Some ''__proto__'' \<longrightarrow> processAudio h b preset manual = Inl TypeError)"
proof -
  consider (none) "preset = None"
    | (out) name where "preset = Some name" "name = [] \<or> \<not> inPresets name"
    | (inn) name where "preset = Some name" "name \<noteq> []" "inPresets name"
    by (cases preset) auto
  then have ab: "(processAudio h b preset manual = Inl (Error ''Invalid preset or parameters'') \<longleftrightarrow>
      manual = None \<and> (\<forall>name. preset = Some name \<longrightarrow> name = [] \<or> \<not> inPresets name)) \<and>
      (\<forall>m. processAudio h b preset manual = Inl (Error m) \<longrightarrow> m = ''Invalid preset or parameters'')"
  proof cases
    case none
    then show ?thesis
      by (cases manual) (simp_all add: processAudio_None manual_error)
  next
    case out
    then show ?thesis
      by (cases manual) (auto simp: processAudio_not_in processAudio_None manual_error)
  next
    case inn
    have "processAudio h b preset manual = callPreset h name b"
      using inn by (simp add: processAudio_in)
    then have "processAudio h b preset manual \<noteq> Inl (Error m)" for m
      using callPreset_error[of h name b "Error m"] by auto
    then show ?thesis using inn by auto
  qed
  have a: "(processAudio h b preset manual = Inl (Error ''Invalid preset or parameters'') \<longleftrightarrow>
      manual = None \<and> (\<forall>name. preset = Some name \<longrightarrow> name = [] \<or> \<not> inPresets name))"
    using ab by (rule conjunct1)
  have b: "\<forall>m. processAudio h b preset manual = Inl (Error m) \<longrightarrow> m = ''Invalid preset or parameters''"
    using ab by (rule conjunct2)
  have c: "\<forall>name apply. preset = Some name \<and> map_of presets name = Some apply \<longrightarrow>
      processAudio h b preset manual = map_sum id Buffer (apply h b)"
    using processAudio_own by blast
  have d: "\<forall>p. manual = Some p \<and> (\<forall>name. preset = Some name \<longrightarrow> name = [] \<or> \<not> inPresets name) \<longrightarrow>
      processAudio h b preset manual = map_sum id Buffer (previewManualProcessing h b p)"
    by (cases preset) (auto simp: processAudio_not_in processAudio_None)
  have e: "\<forall>name. inPresets name \<longleftrightarrow>
      name \<in> {''bass-boost'', ''studio-sound'', ''podcast-voice'', ''asmr'', ''noise-reduction'',
               ''radio-voice'', ''vinyl-effect'', ''phone-call'', ''normalize'', ''compression''} \<or>
      name \<in> {''constructor'', ''__defineGetter__'', ''__defineSetter__'', ''hasOwnProperty'',
               ''__lookupGetter__'', ''__lookupSetter__'', ''isPrototypeOf'',
               ''propertyIsEnumerable'', ''toString'', ''valueOf'', ''__proto__'',
               ''toLocaleString''}"
    using inPresets_iff by blast
  have f: "preset = Some ''constructor'' \<longrightarrow> processAudio h b preset manual = Inr (Buffer b)"
    using processAudio_constructor[of h b manual] by blast
  have g: "preset = Some ''__proto__'' \<longrightarrow> processAudio h b preset manual = Inl TypeError"
    using processAudio_proto[of h b manual] by blast
  show ?thesis
    by (intro conjI) (fact a b c d e f g)+
qed

theorem C5_processAudio_failure_witness:
  "processAudio bypassHost silentBuffer (Some ''normalize'') (Some neutralParams)
     = Inr (Buffer silentBuffer) \<and>
   processAudio bypassHost silentBuffer None None = Inl (Error ''Invalid preset or parameters'') \<and>
   processAudio bypassHost silentBuffer (Some ''constructor'') None = Inr (Buffer silentBuffer) \<and>
   processAudio bypassHost silentBuffer (Some ''__proto__'') None = Inl TypeError \<and>
   processAudio bypassHost silentBuffer None (Some neutralParams)
     = map_sum id Buffer (previewManualProcessing bypassHost silentBuffer neutralParams)"
proof -
  have "processAudio bypassHost silentBuffer (Some ''normalize'') (Some neutralParams)
          = map_sum id Buffer (applyNormalize bypassHost silentBuffer)"
    using C5_processAudio_failure[of bypassHost silentBuffer "Some ''normalize''"
        "Some neutralParams", THEN conjunct2, THEN conjunct2, THEN conjunct1, rule_format,
        of "''normalize''" applyNormalize]
      map_of_presets_normalize
    by simp
  then have a: "processAudio bypassHost silentBuffer (Some ''normalize'') (Some neutralParams)
          = Inr (Buffer silentBuffer)"
    by (simp add: applyNormalize_silent[OF findPeak_silentBuffer])
  have b: "processAudio bypassHost silentBuffer None None
          = Inl (Error ''Invalid preset or parameters'')"
    using C5_processAudio_failure[of bypassHost silentBuffer None None, THEN conjunct1]
    by simp
  have c: "processAudio bypassHost silentBuffer (Some ''constructor'') None
          = Inr (Buffer silentBuffer)"
    using C5_processAudio_failure[of bypassHost silentBuffer "Some ''constructor''" None,
        THEN conjunct2, THEN conjunct2, THEN conjunct2, THEN conjunct2, THEN conjunct2,
        THEN conjunct1]
    by simp
  have d: "processAudio bypassHost silentBuffer (Some ''__proto__'') None = Inl TypeError"
    using C5_processAudio_failure[of bypassHost silentBuffer "Some ''__proto__''" None,
        THEN conjunct2, THEN conjunct2, THEN conjunct2, THEN conjunct2, THEN conjunct2,
        THEN conjunct2]
    by simp
  have e: "processAudio bypassHost silentBuffer None (Some neutralParams)
          = map_sum id Buffer (previewManualProcessing bypassHost silentBuffer neutralParams)"
    using C5_processAudio_failure[of bypassHost silentBuffer None "Some neutralParams",
        THEN conjunct2, THEN conjunct2, THEN conjunct2, THEN conjunct1, rule_format,
        of neutralParams]
    by simp
  show ?thesis
    by (intro conjI) (fact a b c d e)+
qed

text \<open>
  C5 as stated fails: with the preset \<open>normalize\<close> and a manual parameter set both
  supplied, the call is not rejected; the preset is applied (to a silent buffer, which
  it returns).
\<close>

theorem C5_both_supplied_counterexample:
  "processAudio bypassHost silentBuffer (Some ''normalize'') (Some neutralParams)
     = Inr (Buffer silentBuffer)"
  using processAudio_own[OF map_of_presets_normalize, of bypassHost silentBuffer "Some neutralParams"]
    applyNormalize_silent[OF findPeak_silentBuffer, of bypassHost]
  by simp

text \<open>
  C6, as the code has it. No numeric field is validated. A call of \<open>processAudio\<close> with
  a manual parameter set and no preset is the call of \<open>previewManualProcessing\<close> and never
  ends in an \<open>Error\<close> of the code's own. A high pass, low pass or normalize value \<open>v\<close>
  that is 0 or negative appends no node, as if the field were left out, and alone in the
  set it gives back the input buffer. A compression value \<open>v\<close> other than 0, negative or
  not, appends a compressor of ratio \<open>3 + \<bar>v\<bar>\<close> (as a double): alone in the set it gives
  exactly that node, provided the ratio fits a single, and in any set whose nodes are
  built that node is among them.
\<close>

theorem C6_no_validation:
  "processAudio h b None (Some p) = map_sum id Buffer (previewManualProcessing h b p) \<and>
   (\<forall>m. processAudio h b None (Some p) \<noteq> Inl (Error m)) \<and>
   (v \<le> 0 \<longrightarrow>
      manualNodes (p\<lparr>highpass := Some (Finite v)\<rparr>) = manualNodes (p\<lparr>highpass := None\<rparr>) \<and>
      manualNodes (p\<lparr>lowpass := Some (Finite v)\<rparr>) = manualNodes (p\<lparr>lowpass := None\<rparr>) \<and>
      manualNodes (p\<lparr>normalize := Some (Finite v)\<rparr>) = manualNodes (p\<lparr>normalize := None\<rparr>)) \<and>
   (v \<le> 0 \<longrightarrow>
      processAudio h b None (Some (noParams\<lparr>highpass := Some (Finite v)\<rparr>)) = Inr (Buffer b) \<and>
      processAudio h b None (Some (noParams\<lparr>lowpass := Some (Finite v)\<rparr>)) = Inr (Buffer b) \<and>
      processAudio h b None (Some (noParams\<lparr>normalize := Some (Finite v)\<rparr>)) = Inr (Buffer b)) \<and>
   (v \<noteq> 0 \<and> \<bar>fround (double (3 + \<bar>v\<bar>))\<bar> < 2 ^ 128 \<longrightarrow>
      manualNodes (noParams\<lparr>compression := Some (Finite v)\<rparr>)
        = Inr [DynamicsCompressor (- 24) 30 (double (3 + \<bar>v\<bar>)) (double 0.003) 0.25]) \<and>
   (\<forall>nodes. compression p = Some (Finite v) \<and> v \<noteq> 0 \<and> manualNodes p = Inr nodes \<longrightarrow>
      DynamicsCompressor (- 24) 30 (double (3 + \<bar>v\<bar>)) (double 0.003) 0.25 \<in> set nodes)"
proof -
  have a: "processAudio h b None (Some p) = map_sum id Buffer (previewManualProcessing h b p)"
    by (rule processAudio_manual)
  have b: "\<forall>m. processAudio h b None (Some p) \<noteq> Inl (Error m)"
    unfolding a using manual_error by blast
  have c: "v \<le> 0 \<longrightarrow>
      manualNodes (p\<lparr>highpass := Some (Finite v)\<rparr>) = manualNodes (p\<lparr>highpass := None\<rparr>) \<and>
      manualNodes (p\<lparr>lowpass := Some (Finite v)\<rparr>) = manualNodes (p\<lparr>lowpass := None\<rparr>) \<and>
      manualNodes (p\<lparr>normalize := Some (Finite v)\<rparr>) = manualNodes (p\<lparr>normalize := None\<rparr>)"
    using manualNodes_highpass_ignored[of v p] manualNodes_lowpass_ignored[of v p]
      manualNodes_normalize_ignored[of v p]
    by blast
  have d: "v \<le> 0 \<longrightarrow>
      processAudio h b None (Some (noParams\<lparr>highpass := Some (Finite v)\<rparr>)) = Inr (Buffer b) \<and>
      processAudio h b None (Some (noParams\<lparr>lowpass := Some (Finite v)\<rparr>)) = Inr (Buffer b) \<and>
      processAudio h b None (Some (noParams\<lparr>normalize := Some (Finite v)\<rparr>)) = Inr (Buffer b)"
    using processAudio_no_nodes[OF manualNodes_only_highpass, of v h b]
      processAudio_no_nodes[OF manualNodes_only_lowpass, of v h b]
      processAudio_no_nodes[OF manualNodes_only_normalize, of v h b]
    by blast
  have e: "v \<noteq> 0 \<and> \<bar>fround (double (3 + \<bar>v\<bar>))\<bar> < 2 ^ 128 \<longrightarrow>
      manualNodes (noParams\<lparr>compression := Some (Finite v)\<rparr>)
        = Inr [DynamicsCompressor (- 24) 30 (double (3 + \<bar>v\<bar>)) (double 0.003) 0.25]"
    using manualNodes_only_compression[of v] by blast
  have f: "\<forall>nodes. compression p = Some (Finite v) \<and> v \<noteq> 0 \<and> manualNodes p = Inr nodes \<longrightarrow>
      DynamicsCompressor (- 24) 30 (double (3 + \<bar>v\<bar>)) (double 0.003) 0.25 \<in> set nodes"
    using manualNodes_compression[of p v] by blast
  show ?thesis
    by (intro conjI) (fact a b c d e f)+
qed

theorem C6_no_validation_witness:
  "processAudio bypassHost halfBuffer None (Some (noParams\<lparr>lowpass := Some (Finite (- 2))\<rparr>))
     = Inr (Buffer halfBuffer) \<and>
   manualNodes (noParams\<lparr>compression := Some (Finite (- 2))\<rparr>)
     = Inr [DynamicsCompressor (- 24) 30 5 (double 0.003) 0.25] \<and>
   DynamicsCompressor (- 24) 30 5 (double 0.003) 0.25
     \<in> set [DynamicsCompressor (- 24) 30 5 (double 0.003) 0.25]"
proof -
  note t = C6_no_validation[of bypassHost halfBuffer
      "noParams\<lparr>compression := Some (Finite (- 2))\<rparr>" "- 2"]
  have a: "processAudio bypassHost halfBuffer None (Some (noParams\<lparr>lowpass := Some (Finite (- 2))\<rparr>))
     = Inr (Buffer halfBuffer)"
    using t[THEN conjunct2, THEN conjunct2, THEN conjunct2, THEN conjunct1] by simp
  have b: "manualNodes (noParams\<lparr>compression := Some (Finite (- 2))\<rparr>)
     = Inr [DynamicsCompressor (- 24) 30 5 (double 0.003) 0.25]"
    using t[THEN conjunct2, THEN conjunct2, THEN conjunct2, THEN conjunct2, THEN conjunct1]
    by (simp add: double_five fround_five)
  have c: "DynamicsCompressor (- 24) 30 5 (double 0.003) 0.25
     \<in> set [DynamicsCompressor (- 24) 30 5 (double 0.003) 0.25]"
    using t[THEN conjunct2, THEN conjunct2, THEN conjunct2, THEN conjunct2, THEN conjunct2,
        rule_format, of "[DynamicsCompressor (- 24) 30 5 (double 0.003) 0.25]"] b
    by (simp add: double_five)
  show ?thesis
    by (intro conjI) (fact a b c)+
qed

text \<open>
  C6 as stated fails: a high pass cutoff of -100 Hz is accepted, no error is returned,
  and the buffer comes back unchanged, the out-of-range value silently ignored.
\<close>

theorem C6_negative_cutoff_counterexample:
  "processAudio bypassHost halfBuffer None (Some (noParams\<lparr>highpass := Some (Finite (- 100))\<rparr>))
     = Inr (Buffer halfBuffer)"
  by (rule processAudio_no_nodes[OF manualNodes_only_highpass]) simp



text \<open>
  C8, as the code has it. Restart puts the position, of the component and of the audio
  element, at 0 and leaves the play state as it was: a playing session goes on playing from
  0, a session that is not playing stays so. While the element does not exist yet, Restart
  changes nothing.
\<close>

theorem C8_restart_keeps_play_state:
  "(\<forall>a. audioRef s = Some a \<longrightarrow>
      currentTime (handleRestart s) = 0 \<and>
      audioRef (handleRestart s) = Some (a\<lparr>el_currentTime := 0\<rparr>)) \<and>
   (audioRef s = None \<longrightarrow> handleRestart s = s) \<and>
   isPlaying (handleRestart s) = isPlaying s \<and>
   duration (handleRestart s) = duration s"
  by (cases "audioRef s") (simp_all add: handleRestart_def)

theorem C8_restart_keeps_play_state_witness:
  "currentTime (handleRestart playingState) = 0 \<and> isPlaying (handleRestart playingState) \<and>
   audioRef (handleRestart playingState) = Some \<lparr>el_currentTime = 0, el_paused = False\<rparr>"
proof -
  have "audioRef playingState = Some \<lparr>el_currentTime = 3, el_paused = False\<rparr> \<and>
        isPlaying playingState"
    by (simp add: playingState_def)
  then show ?thesis
    using C8_restart_keeps_play_state[of playingState] by simp
qed

text \<open>
  C8 as stated fails: Restart in the state right after mounting, which is not playing,
  leaves a state that is not playing.
\<close>

theorem C8_restart_counterexample:
  "\<not> (isPlaying (handleRestart initialState) \<and> currentTime (handleRestart initialState) = 0)"
  by (simp add: initialState_def handleRestart_def)

text \<open>
  C9. Both copies of \<open>makeDistortionCurve\<close> tabulate 44100 points, which is no fewer than
  2048, and the value at every index \<open>i\<close> is the transfer curve at \<open>x = 2i/N - 1\<close>, with
  \<open>N\<close> the table size and \<open>k\<close> the amount passed (50, respectively 5, when none is).
\<close>

theorem C9_distortion_curve:
  "length (makeDistortionCurve_radio amount) = n_samples \<and>
   length (makeDistortionCurve_vinyl amount) = n_samples \<and>
   2048 \<le> n_samples \<and>
   (\<forall>i<n_samples.
      makeDistortionCurve_radio amount ! i
        = transfer (case amount of Some a \<Rightarrow> a | None \<Rightarrow> 50) (2 * real i / real n_samples - 1) \<and>
      makeDistortionCurve_vinyl amount ! i
        = transfer (case amount of Some a \<Rightarrow> a | None \<Rightarrow> 5) (2 * real i / real n_samples - 1))"
proof -
  have pt: "curvePoint k i = transfer k (2 * real i / real n_samples - 1)" for k i
    by (simp add: curvePoint_def transfer_def deg_def Let_def mult.commute)
  have n: "(2048::nat) \<le> n_samples"
    by (simp add: n_samples_def)
  show ?thesis
    using n by (simp add: makeDistortionCurve_radio_def makeDistortionCurve_vinyl_def Let_def pt)
qed

theorem C9_distortion_curve_witness:
  "(22050::nat) < n_samples \<and> makeDistortionCurve_radio (Some 20) ! 22050 = 0 \<and>
   (0::nat) < n_samples \<and> makeDistortionCurve_vinyl (Some 2) ! 0 = transfer 2 (- 1)"
proof -
  have a: "(22050::nat) < n_samples" and b: "(0::nat) < n_samples"
    by (simp_all add: n_samples_def)
  have "makeDistortionCurve_radio (Some 20) ! 22050
          = transfer 20 (2 * real 22050 / real n_samples - 1)"
    using C9_distortion_curve[of "Some 20"] a by simp
  moreover have "makeDistortionCurve_vinyl (Some 2) ! 0
          = transfer 2 (2 * real 0 / real n_samples - 1)"
    using C9_distortion_curve[of "Some 2"] b by simp
  ultimately show ?thesis
    using a b by (simp add: n_samples_def transfer_def)
qed

text \<open>
  C10. In the encoder's output the 32-bit field at byte offset 28 (byte rate) holds
  \<open>sampleRate * 4\<close>, whatever the channel count, and the 16-bit field at offset 32 (block
  align) holds \<open>channels * 2\<close>. For a buffer the host can create (a positive sample rate
  below \<open>2^30\<close> and fewer than \<open>2^15\<close> channels, so that neither field wraps) whose
  channel count is not 2, the byte rate field differs from the sample rate times the
  block align field.
\<close>

theorem C10_byte_rate_field:
  "\<exists>bytes. audioBufferToWav b = Inr bytes \<and>
     getUint32 bytes 28 = of_nat (sampleRate b * 4) \<and>
     getUint16 bytes 32 = of_nat (numberOfChannels b * 2) \<and>
     (numberOfChannels b \<noteq> 2 \<and> 0 < sampleRate b \<and> sampleRate b < 2 ^ 30 \<and>
      numberOfChannels b < 2 ^ 15 \<longrightarrow>
        unat (getUint32 bytes 28) = sampleRate b * 4 \<and>
        unat (getUint16 bytes 32) = numberOfChannels b * 2 \<and>
        unat (getUint32 bytes 28) \<noteq> sampleRate b * unat (getUint16 bytes 32))"
proof -
  let ?bytes = "headerBytes b @ dataBytes b"
  have r: "unat (getUint32 ?bytes 28) = sampleRate b * 4" if "sampleRate b < 2 ^ 30"
    unfolding header_fields32 using that by (intro unat_of_nat32) simp
  have a: "unat (getUint16 ?bytes 32) = numberOfChannels b * 2" if "numberOfChannels b < 2 ^ 15"
    unfolding header_fields16 using that by (intro unat_of_nat16) simp
  show ?thesis
    using audioBufferToWav_eq[of b] r a
    by (intro exI[of _ ?bytes]) (auto simp: header_fields32 header_fields16)
qed

theorem C10_byte_rate_field_witness:
  "numberOfChannels monoBuffer \<noteq> 2 \<and> 0 < sampleRate monoBuffer \<and>
   (\<exists>bytes. audioBufferToWav monoBuffer = Inr bytes \<and>
      unat (getUint32 bytes 28) = 176400 \<and> unat (getUint16 bytes 32) = 2 \<and>
      unat (getUint32 bytes 28) \<noteq> sampleRate monoBuffer * unat (getUint16 bytes 32))"
proof -
  have n: "numberOfChannels monoBuffer = 1" "sampleRate monoBuffer = 44100"
    by (simp_all add: monoBuffer_def numberOfChannels_def)
  show ?thesis
    using C10_byte_rate_field[of monoBuffer] by (simp add: n) blast
qed

end
